theory Spec2Isabelle
  imports Complex_Main "HOL-Library.AList" "HOL-Library.Word"
begin

section \<open>Shared helpers\<close>

text \<open>
  Python exceptions that the modelled functions can raise. A function that can raise
  returns \<open>py_error + 'a\<close>, with \<open>Inl\<close> for the exception.
\<close>

datatype py_error = StopIteration | ZeroDivisionError | ValueError | IndexError | OverflowError

text \<open>
  The index of the first element satisfying a test. It models the loops of the form
  \<^verbatim>\<open>for i, x in enumerate(xs): if test(x): ...; break\<close> and \<^verbatim>\<open>xs.index(v)\<close>;
  \<open>None\<close> is "the loop ran to its end" (for \<^verbatim>\<open>index\<close>: ValueError).
\<close>

fun first_index :: "('a \<Rightarrow> bool) \<Rightarrow> 'a list \<Rightarrow> nat option" where
  "first_index P [] = None"
| "first_index P (x # xs) = (if P x then Some 0 else map_option Suc (first_index P xs))"

section \<open>Page replacement (page\_replacement.py)\<close>

text \<open>
  The result dictionary of \<^verbatim>\<open>access_page\<close>; its keys \<^verbatim>\<open>page_id\<close> and
  \<^verbatim>\<open>page_fault\<close> carry the prefix \<open>res\<close> here.
\<close>

record access_result =
  res_page_id :: int
  res_page_fault :: bool
  replaced_page :: "int option"
  frame_index :: "nat option"
  algorithm :: string

text \<open>
  The base class \<^verbatim>\<open>PageReplacementAlgorithm\<close>. The slot list \<^verbatim>\<open>frames\<close> is
  \<open>slots\<close> here, since the paging engine has a \<^verbatim>\<open>frames\<close> of its own.
\<close>

record PageReplacementAlgorithm =
  pra_num_frames :: int
  slots :: "int option list"
  page_faults :: nat
  page_hits :: nat

definition PageReplacementAlgorithm_init :: "int \<Rightarrow> PageReplacementAlgorithm" where
  "PageReplacementAlgorithm_init n =
     \<lparr>pra_num_frames = n, slots = replicate (nat n) None, page_faults = 0, page_hits = 0\<rparr>"

definition is_page_loaded :: "int option list \<Rightarrow> int \<Rightarrow> bool" where
  "is_page_loaded fs page_id = (Some page_id \<in> set fs)"

definition get_free_frame_index :: "int option list \<Rightarrow> nat option" where
  "get_free_frame_index fs = first_index (\<lambda>page. page = None) fs"

definition slot_of :: "int option list \<Rightarrow> int \<Rightarrow> nat option" where
  "slot_of fs page_id = first_index (\<lambda>page. page = Some page_id) fs"

definition new_result :: "int \<Rightarrow> string \<Rightarrow> access_result" where
  "new_result page_id alg =
     \<lparr>res_page_id = page_id, res_page_fault = False, replaced_page = None,
      frame_index = None, algorithm = alg\<rparr>"

subsection \<open>FIFO\<close>

record FIFOReplacement = PageReplacementAlgorithm +
  queue :: "int list"

definition FIFOReplacement_init :: "int \<Rightarrow> FIFOReplacement" where
  "FIFOReplacement_init n =
     \<lparr>pra_num_frames = n, slots = replicate (nat n) None, page_faults = 0, page_hits = 0,
      queue = []\<rparr>"

definition FIFO_access_page :: "FIFOReplacement \<Rightarrow> int \<Rightarrow> FIFOReplacement \<times> access_result" where
  "FIFO_access_page s page_id =
     (let result = new_result page_id ''FIFO'' in
      if is_page_loaded (slots s) page_id then
        (s\<lparr>page_hits := page_hits s + 1\<rparr>,
         result\<lparr>frame_index := slot_of (slots s) page_id\<rparr>)
      else
        let s1 = s\<lparr>page_faults := page_faults s + 1\<rparr>;
            result1 = result\<lparr>res_page_fault := True\<rparr>
        in case get_free_frame_index (slots s1) of
             Some free_index \<Rightarrow>
               (s1\<lparr>slots := (slots s1)[free_index := Some page_id],
                   queue := queue s1 @ [page_id]\<rparr>,
                result1\<lparr>frame_index := Some free_index\<rparr>)
           | None \<Rightarrow>
               (case queue s1 of
                  [] \<Rightarrow> (s1, result1)
                | oldest_page # rest \<Rightarrow>
                    (case slot_of (slots s1) oldest_page of
                       None \<Rightarrow> (s1\<lparr>queue := rest\<rparr>, result1)
                     | Some i \<Rightarrow>
                         (s1\<lparr>slots := (slots s1)[i := Some page_id],
                             queue := rest @ [page_id]\<rparr>,
                          result1\<lparr>replaced_page := Some oldest_page,
                                  frame_index := Some i\<rparr>))))"

subsection \<open>LRU\<close>

record LRUReplacement = PageReplacementAlgorithm +
  access_order :: "int list"

definition LRUReplacement_init :: "int \<Rightarrow> LRUReplacement" where
  "LRUReplacement_init n =
     \<lparr>pra_num_frames = n, slots = replicate (nat n) None, page_faults = 0, page_hits = 0,
      access_order = []\<rparr>"

text \<open>\<^verbatim>\<open>if page_id in order: order.remove(page_id)\<close> followed by \<^verbatim>\<open>order.append(page_id)\<close>.\<close>

definition move_to_end :: "int list \<Rightarrow> int \<Rightarrow> int list" where
  "move_to_end order page_id = remove1 page_id order @ [page_id]"

definition LRU_access_page :: "LRUReplacement \<Rightarrow> int \<Rightarrow> LRUReplacement \<times> access_result" where
  "LRU_access_page s page_id =
     (let result = new_result page_id ''LRU'' in
      if is_page_loaded (slots s) page_id then
        (s\<lparr>page_hits := page_hits s + 1,
           access_order := move_to_end (access_order s) page_id\<rparr>,
         result\<lparr>frame_index := slot_of (slots s) page_id\<rparr>)
      else
        let s1 = s\<lparr>page_faults := page_faults s + 1\<rparr>;
            result1 = result\<lparr>res_page_fault := True\<rparr>
        in case get_free_frame_index (slots s1) of
             Some free_index \<Rightarrow>
               (s1\<lparr>slots := (slots s1)[free_index := Some page_id],
                   access_order := access_order s1 @ [page_id]\<rparr>,
                result1\<lparr>frame_index := Some free_index\<rparr>)
           | None \<Rightarrow>
               (case access_order s1 of
                  [] \<Rightarrow> (s1, result1)
                | lru_page # rest \<Rightarrow>
                    (case slot_of (slots s1) lru_page of
                       None \<Rightarrow> (s1\<lparr>access_order := rest\<rparr>, result1)
                     | Some i \<Rightarrow>
                         (s1\<lparr>slots := (slots s1)[i := Some page_id],
                             access_order := rest @ [page_id]\<rparr>,
                          result1\<lparr>replaced_page := Some lru_page,
                                  frame_index := Some i\<rparr>))))"

subsection \<open>Optimal\<close>

text \<open>
  The scan of the resident pages: \<open>page_to_replace\<close> and \<open>max_distance\<close> are the loop's
  two variables; a page with no future occurrence ends the loop at once.
\<close>

fun optimal_scan :: "int list \<Rightarrow> int option list \<Rightarrow> int option \<Rightarrow> int \<Rightarrow> int option" where
  "optimal_scan future [] page_to_replace max_distance = page_to_replace"
| "optimal_scan future (None # rest) page_to_replace max_distance =
     optimal_scan future rest page_to_replace max_distance"
| "optimal_scan future (Some loaded_page # rest) page_to_replace max_distance =
     (case first_index (\<lambda>r. r = loaded_page) future of
        None \<Rightarrow> Some loaded_page
      | Some distance \<Rightarrow>
          if int distance > max_distance
          then optimal_scan future rest (Some loaded_page) (int distance)
          else optimal_scan future rest page_to_replace max_distance)"

definition future_list :: "int list option \<Rightarrow> int list" where
  "future_list future_references = (case future_references of None \<Rightarrow> [] | Some refs \<Rightarrow> refs)"

definition Optimal_access_page ::
  "PageReplacementAlgorithm \<Rightarrow> int \<Rightarrow> int list option \<Rightarrow>
   PageReplacementAlgorithm \<times> (py_error + access_result)" where
  "Optimal_access_page s page_id future_references =
     (let result = new_result page_id ''OPTIMAL'' in
      if is_page_loaded (slots s) page_id then
        (s\<lparr>page_hits := page_hits s + 1\<rparr>,
         Inr (result\<lparr>frame_index := slot_of (slots s) page_id\<rparr>))
      else
        let s1 = s\<lparr>page_faults := page_faults s + 1\<rparr>;
            result1 = result\<lparr>res_page_fault := True\<rparr>
        in case get_free_frame_index (slots s1) of
             Some free_index \<Rightarrow>
               (s1\<lparr>slots := (slots s1)[free_index := Some page_id]\<rparr>,
                Inr (result1\<lparr>frame_index := Some free_index\<rparr>))
           | None \<Rightarrow>
               (let future = future_list future_references;
                    found = optimal_scan future (slots s1) None (- 1);
                    chosen = (case found of
                                Some p \<Rightarrow> Some p
                              | None \<Rightarrow> (case List.find (\<lambda>p. p \<noteq> None) (slots s1) of
                                           Some (Some p) \<Rightarrow> Some p
                                         | _ \<Rightarrow> None))
                in case chosen of
                     None \<Rightarrow> (s1, Inl StopIteration)
                   | Some page_to_replace \<Rightarrow>
                       (case slot_of (slots s1) page_to_replace of
                          None \<Rightarrow> (s1, Inr result1)
                        | Some i \<Rightarrow>
                            (s1\<lparr>slots := (slots s1)[i := Some page_id]\<rparr>,
                             Inr (result1\<lparr>replaced_page := Some page_to_replace,
                                          frame_index := Some i\<rparr>)))))"

section \<open>Virtual memory (virtual\_memory.py)\<close>

datatype ReplacementAlgorithm = FIFO | LRU | OPTIMAL

text \<open>
  The field \<^verbatim>\<open>replacement\<close> holds an object of one of the three classes; the
  dispatch of its methods is a case distinction.
\<close>

datatype replacement_engine =
  FIFO_engine FIFOReplacement
| LRU_engine LRUReplacement
| Optimal_engine PageReplacementAlgorithm

fun engine_slots :: "replacement_engine \<Rightarrow> int option list" where
  "engine_slots (FIFO_engine e) = slots e"
| "engine_slots (LRU_engine e) = slots e"
| "engine_slots (Optimal_engine e) = slots e"

fun engine_set_slots :: "replacement_engine \<Rightarrow> int option list \<Rightarrow> replacement_engine" where
  "engine_set_slots (FIFO_engine e) fs = FIFO_engine (e\<lparr>slots := fs\<rparr>)"
| "engine_set_slots (LRU_engine e) fs = LRU_engine (e\<lparr>slots := fs\<rparr>)"
| "engine_set_slots (Optimal_engine e) fs = Optimal_engine (e\<lparr>slots := fs\<rparr>)"

fun engine_access_page ::
  "replacement_engine \<Rightarrow> int \<Rightarrow> int list option \<Rightarrow>
   replacement_engine \<times> (py_error + access_result)" where
  "engine_access_page (FIFO_engine e) page_id future_references =
     (let (e1, r) = FIFO_access_page e page_id in (FIFO_engine e1, Inr r))"
| "engine_access_page (LRU_engine e) page_id future_references =
     (let (e1, r) = LRU_access_page e page_id in (LRU_engine e1, Inr r))"
| "engine_access_page (Optimal_engine e) page_id future_references =
     (let (e1, r) = Optimal_access_page e page_id future_references in (Optimal_engine e1, r))"

text \<open>
  \<^verbatim>\<open>bytes(n)\<close> is \<open>n\<close> zero bytes, and raises ValueError when \<open>n\<close> is negative.
\<close>

type_synonym bytes = "8 word list"

definition zero_bytes :: "int \<Rightarrow> py_error + bytes" where
  "zero_bytes n = (if n < 0 then Inl ValueError else Inr (replicate (nat n) 0))"

text \<open>
  Dictionaries are association lists in insertion order; \<^const>\<open>map_of\<close> is the lookup,
  \<^const>\<open>AList.update\<close> the assignment (in place for a present key, appended for a new
  one) and \<^const>\<open>AList.delete\<close> the \<^verbatim>\<open>del\<close>.
\<close>

type_synonym BackingStore = "(int \<times> bytes) list"

definition store_page :: "BackingStore \<Rightarrow> int \<Rightarrow> bytes \<Rightarrow> BackingStore" where
  "store_page pages page_id data = AList.update page_id data pages"

definition load_page :: "BackingStore \<Rightarrow> int \<Rightarrow> bytes option" where
  "load_page pages page_id = map_of pages page_id"

definition has_page :: "BackingStore \<Rightarrow> int \<Rightarrow> bool" where
  "has_page pages page_id = (map_of pages page_id \<noteq> None)"

definition remove_page :: "BackingStore \<Rightarrow> int \<Rightarrow> BackingStore \<times> bool" where
  "remove_page pages page_id =
     (if has_page pages page_id then (AList.delete page_id pages, True) else (pages, False))"

record VirtualMemoryManager =
  vm_num_frames :: int
  frame_size :: int
  vm_algorithm :: ReplacementAlgorithm
  replacement :: replacement_engine
  backing_store :: BackingStore
  process_pages :: "(int \<times> int list) list"
  swap_ins :: nat
  swap_outs :: nat
  address_cache :: "((int \<times> int) \<times> int) list"

fun create_replacement_algorithm :: "int \<Rightarrow> ReplacementAlgorithm \<Rightarrow> replacement_engine" where
  "create_replacement_algorithm n FIFO = FIFO_engine (FIFOReplacement_init n)"
| "create_replacement_algorithm n LRU = LRU_engine (LRUReplacement_init n)"
| "create_replacement_algorithm n OPTIMAL = Optimal_engine (PageReplacementAlgorithm_init n)"

definition VirtualMemoryManager_init ::
  "int \<Rightarrow> int \<Rightarrow> ReplacementAlgorithm \<Rightarrow> VirtualMemoryManager" where
  "VirtualMemoryManager_init n fsize alg =
     \<lparr>vm_num_frames = n, frame_size = fsize, vm_algorithm = alg,
      replacement = create_replacement_algorithm n alg, backing_store = [],
      process_pages = [], swap_ins = 0, swap_outs = 0, address_cache = []\<rparr>"

text \<open>
  The loop of \<^verbatim>\<open>load_process\<close> over the pages; it stops where \<^verbatim>\<open>bytes\<close> raises.
\<close>

fun seed_pages :: "int \<Rightarrow> int list \<Rightarrow> BackingStore \<Rightarrow> BackingStore \<times> py_error option" where
  "seed_pages fsize [] bs = (bs, None)"
| "seed_pages fsize (page_id # rest) bs =
     (if \<not> has_page bs page_id then
        (case zero_bytes fsize of
           Inl e \<Rightarrow> (bs, Some e)
         | Inr page_data \<Rightarrow> seed_pages fsize rest (store_page bs page_id page_data))
      else seed_pages fsize rest bs)"

definition VM_load_process ::
  "VirtualMemoryManager \<Rightarrow> int \<Rightarrow> int list \<Rightarrow> VirtualMemoryManager \<times> (py_error + bool)" where
  "VM_load_process s process_id pages =
     (let s1 = s\<lparr>process_pages := AList.update process_id pages (process_pages s)\<rparr> in
      case seed_pages (frame_size s1) pages (backing_store s1) of
        (bs, Some e) \<Rightarrow> (s1\<lparr>backing_store := bs\<rparr>, Inl e)
      | (bs, None) \<Rightarrow> (s1\<lparr>backing_store := bs\<rparr>, Inr True))"

text \<open>
  One round of the loop of \<^verbatim>\<open>remove_process\<close>: the page leaves the backing store
  and every slot that holds it is set to \<^verbatim>\<open>None\<close>.
\<close>

definition free_page :: "int \<Rightarrow> BackingStore \<times> int option list \<Rightarrow> BackingStore \<times> int option list" where
  "free_page page_id st =
     (let bs = fst (remove_page (fst st) page_id);
          fs = snd st
      in if is_page_loaded fs page_id
         then (bs, map (\<lambda>loaded_page. if loaded_page = Some page_id then None else loaded_page) fs)
         else (bs, fs))"

definition VM_remove_process :: "VirtualMemoryManager \<Rightarrow> int \<Rightarrow> VirtualMemoryManager \<times> bool" where
  "VM_remove_process s process_id =
     (case map_of (process_pages s) process_id of
        None \<Rightarrow> (s, False)
      | Some pages \<Rightarrow>
          (let (bs, fs) = fold free_page pages (backing_store s, engine_slots (replacement s))
           in (s\<lparr>backing_store := bs,
                  replacement := engine_set_slots (replacement s) fs,
                  process_pages := AList.delete process_id (process_pages s)\<rparr>, True)))"

text \<open>
  The result dictionary of the manager's \<^verbatim>\<open>access_page\<close>. A hard error has the keys
  \<^verbatim>\<open>success\<close> (false), \<^verbatim>\<open>error\<close> and \<^verbatim>\<open>page_fault\<close>; the message is kept as
  its kind and its numbers. A completed access is the engine's dictionary with the keys
  \<^verbatim>\<open>swap_in\<close>, \<^verbatim>\<open>swap_out\<close> and \<^verbatim>\<open>success\<close> (true) added.
\<close>

datatype vm_error =
  ProcessNotFound int
| PageNotInProcess int int
| PageNotInBackingStore int

datatype vm_result =
  Failure vm_error bool
| Completed access_result bool bool

fun success :: "vm_result \<Rightarrow> bool" where
  "success (Failure e pf) = False"
| "success (Completed r swap_in swap_out) = True"

fun page_fault :: "vm_result \<Rightarrow> bool" where
  "page_fault (Failure e pf) = pf"
| "page_fault (Completed r swap_in swap_out) = res_page_fault r"

definition VM_access_page ::
  "VirtualMemoryManager \<Rightarrow> int \<Rightarrow> int \<Rightarrow> bool \<Rightarrow> int list option \<Rightarrow>
   VirtualMemoryManager \<times> (py_error + vm_result)" where
  "VM_access_page s process_id page_id write future_references =
     (case map_of (process_pages s) process_id of
        None \<Rightarrow> (s, Inr (Failure (ProcessNotFound process_id) False))
      | Some pages \<Rightarrow>
          if page_id \<notin> set pages then
            (s, Inr (Failure (PageNotInProcess page_id process_id) False))
          else if is_page_loaded (engine_slots (replacement s)) page_id then
            (case engine_access_page (replacement s) page_id future_references of
               (e1, Inl err) \<Rightarrow> (s\<lparr>replacement := e1\<rparr>, Inl err)
             | (e1, Inr result) \<Rightarrow> (s\<lparr>replacement := e1\<rparr>, Inr (Completed result False False)))
          else if \<not> has_page (backing_store s) page_id then
            (s, Inr (Failure (PageNotInBackingStore page_id) True))
          else
            (case engine_access_page (replacement s) page_id future_references of
               (e1, Inl err) \<Rightarrow> (s\<lparr>replacement := e1\<rparr>, Inl err)
             | (e1, Inr result) \<Rightarrow>
                 (case replaced_page result of
                    Some replaced \<Rightarrow>
                      (case zero_bytes (frame_size s) of
                         Inl err \<Rightarrow> (s\<lparr>replacement := e1\<rparr>, Inl err)
                       | Inr data \<Rightarrow>
                           (s\<lparr>replacement := e1,
                              backing_store := store_page (backing_store s) replaced data,
                              swap_outs := swap_outs s + 1,
                              swap_ins := swap_ins s + 1\<rparr>,
                            Inr (Completed result True True)))
                  | None \<Rightarrow>
                      (s\<lparr>replacement := e1, swap_ins := swap_ins s + 1\<rparr>,
                       Inr (Completed result True False)))))"


subsection \<open>Scenarios\<close>

text \<open>
  Two processes registered with the same page id 0, the page resident after an access
  by process 2.
\<close>

definition shared_page_vm :: VirtualMemoryManager where
  "shared_page_vm =
     fst (VM_access_page
       (fst (VM_load_process (fst (VM_load_process (VirtualMemoryManager_init 2 4 FIFO) 1 [0])) 2 [0]))
       2 0 False None)"

text \<open>
  Process 1 (page 1) is loaded, accessed and removed, which leaves page 1 in the order
  structure; process 2 then fills both slots with its pages 2 and 3.
\<close>

definition stale_entry_vm :: "ReplacementAlgorithm \<Rightarrow> VirtualMemoryManager" where
  "stale_entry_vm alg =
     (let s0 = VirtualMemoryManager_init 2 4 alg;
          s1 = fst (VM_load_process s0 1 [1]);
          s2 = fst (VM_load_process s1 2 [2, 3, 4]);
          s3 = fst (VM_access_page s2 1 1 False None);
          s4 = fst (VM_remove_process s3 1);
          s5 = fst (VM_access_page s4 2 2 False None)
      in fst (VM_access_page s5 2 3 False None))"

text \<open>
  Two processes with disjoint page lists, one page of each resident.
\<close>

definition disjoint_pages_vm :: VirtualMemoryManager where
  "disjoint_pages_vm =
     (let s0 = VirtualMemoryManager_init 2 4 FIFO;
          s1 = fst (VM_load_process s0 1 [0, 1]);
          s2 = fst (VM_load_process s1 2 [2, 3]);
          s3 = fst (VM_access_page s2 1 0 False None)
      in fst (VM_access_page s3 2 2 False None))"

text \<open>A run of accesses on one engine, keeping the result of each call.\<close>

fun FIFO_run :: "FIFOReplacement \<Rightarrow> int list \<Rightarrow> FIFOReplacement \<times> access_result list" where
  "FIFO_run s [] = (s, [])"
| "FIFO_run s (p # ps) =
     (let (s1, r) = FIFO_access_page s p; (s2, rs) = FIFO_run s1 ps in (s2, r # rs))"

fun LRU_run :: "LRUReplacement \<Rightarrow> int list \<Rightarrow> LRUReplacement \<times> access_result list" where
  "LRU_run s [] = (s, [])"
| "LRU_run s (p # ps) =
     (let (s1, r) = LRU_access_page s p; (s2, rs) = LRU_run s1 ps in (s2, r # rs))"

section \<open>Segmentation (segmentation\_engine.py)\<close>

datatype SegmentStatus = SEG_ALLOCATED | SEG_FREE

record Segment =
  segment_id :: int
  seg_name :: string
  base :: int
  limit :: int
  seg_status :: SegmentStatus

definition Segment_init :: "int \<Rightarrow> string \<Rightarrow> int \<Rightarrow> int \<Rightarrow> Segment" where
  "Segment_init sid nm b l =
     \<lparr>segment_id = sid, seg_name = nm, base = b, limit = l, seg_status = SEG_ALLOCATED\<rparr>"

record SegmentTable =
  st_process_id :: int
  segments :: "(int \<times> Segment) list"

definition SegmentTable_add_segment ::
  "SegmentTable \<Rightarrow> int \<Rightarrow> string \<Rightarrow> int \<Rightarrow> int \<Rightarrow> SegmentTable" where
  "SegmentTable_add_segment t sid nm b l =
     t\<lparr>segments := AList.update sid (Segment_init sid nm b l) (segments t)\<rparr>"

record SegmentationEngine =
  segment_tables :: "(int \<times> SegmentTable) list"
  next_base_address :: int
  access_attempts :: nat
  access_successes :: nat
  bounds_violations :: nat

definition SegmentationEngine_init :: SegmentationEngine where
  "SegmentationEngine_init =
     \<lparr>segment_tables = [], next_base_address = 4096, access_attempts = 0,
      access_successes = 0, bounds_violations = 0\<rparr>"

definition Seg_create_process :: "SegmentationEngine \<Rightarrow> int \<Rightarrow> SegmentationEngine \<times> bool" where
  "Seg_create_process s process_id =
     (if map_of (segment_tables s) process_id \<noteq> None then (s, False)
      else (s\<lparr>segment_tables :=
                AList.update process_id \<lparr>st_process_id = process_id, segments = []\<rparr>
                  (segment_tables s)\<rparr>, True))"

text \<open>
  \<^verbatim>\<open>add_segment\<close>: without a base the segment is placed at the cursor
  \<^verbatim>\<open>next_base_address\<close>, which then moves by the size plus \<^verbatim>\<open>0x100\<close> (256).
\<close>

definition Seg_add_segment ::
  "SegmentationEngine \<Rightarrow> int \<Rightarrow> int \<Rightarrow> string \<Rightarrow> int \<Rightarrow> int option \<Rightarrow>
   SegmentationEngine \<times> bool" where
  "Seg_add_segment s process_id sid nm sz base_arg =
     (case map_of (segment_tables s) process_id of
        None \<Rightarrow> (s, False)
      | Some segment_table \<Rightarrow>
          (let (b, s1) = (case base_arg of
                            None \<Rightarrow> (next_base_address s,
                                     s\<lparr>next_base_address := next_base_address s + (sz + 256)\<rparr>)
                          | Some given \<Rightarrow> (given, s))
           in (s1\<lparr>segment_tables :=
                     AList.update process_id (SegmentTable_add_segment segment_table sid nm b sz)
                       (segment_tables s1)\<rparr>, True)))"

text \<open>
  Python floats. A float is a double; \<open>double_exact x\<close> says that the real \<open>x\<close> is a
  finite double: \<open>m * 2 ^ e\<close> or \<open>m / 2 ^ e\<close> with \<open>\<bar>m\<bar> < 2 ^ 53\<close> and the exponent
  in the range of the format. \<open>Float x\<close> is the double of value \<open>x\<close>; \<open>Inexact\<close> is a
  float whose value is left open here (a rounded result, or an infinity). The
  operations are correctly rounded, so a result that is a double is that double.
\<close>

definition double_exact :: "real \<Rightarrow> bool" where
  "double_exact x \<longleftrightarrow>
     (\<exists>e\<in>set [0..<1075]. of_int \<lfloor>x * 2 ^ e\<rfloor> = x * 2 ^ e \<and> \<bar>x * 2 ^ e\<bar> < 2 ^ 53) \<or>
     (\<exists>e\<in>set [0..<972]. of_int \<lfloor>x / 2 ^ e\<rfloor> = x / 2 ^ e \<and> \<bar>x / 2 ^ e\<bar> < 2 ^ 53)"

datatype pyfloat = Float real | Inexact

text \<open>
  The conversion of an integer to a float, as the mixed operations \<^verbatim>\<open>float + int\<close>
  and \<^verbatim>\<open>float / int\<close> do it: OverflowError for an integer that rounds beyond the
  largest double.
\<close>

definition int_to_float :: "int \<Rightarrow> py_error + pyfloat" where
  "int_to_float n =
     (if \<bar>n\<bar> \<ge> 2 ^ 1024 - 2 ^ 970 then Inl OverflowError
      else if double_exact (of_int n) then Inr (Float (of_int n))
      else Inr Inexact)"

fun float_add :: "pyfloat \<Rightarrow> pyfloat \<Rightarrow> pyfloat" where
  "float_add (Float a) (Float b) = (if double_exact (a + b) then Float (a + b) else Inexact)"
| "float_add a b = Inexact"

fun float_mul :: "pyfloat \<Rightarrow> pyfloat \<Rightarrow> pyfloat" where
  "float_mul (Float a) (Float b) = (if double_exact (a * b) then Float (a * b) else Inexact)"
| "float_mul a b = Inexact"

text \<open>
  Division raises ZeroDivisionError for the divisor 0.0. An \<open>Inexact\<close> divisor is a
  rounded integer here, hence not zero.
\<close>

fun float_div :: "pyfloat \<Rightarrow> pyfloat \<Rightarrow> py_error + pyfloat" where
  "float_div (Float a) (Float b) =
     (if b = 0 then Inl ZeroDivisionError
      else if double_exact (a / b) then Inr (Float (a / b))
      else Inr Inexact)"
| "float_div Inexact (Float b) = (if b = 0 then Inl ZeroDivisionError else Inr Inexact)"
| "float_div a Inexact = Inr Inexact"

text \<open>\<^verbatim>\<open>x + n\<close> and \<^verbatim>\<open>x / n * 100\<close> for a float \<open>x\<close> and an integer \<open>n\<close>.\<close>

definition float_add_int :: "pyfloat \<Rightarrow> int \<Rightarrow> py_error + pyfloat" where
  "float_add_int x n =
     (case int_to_float n of Inl e \<Rightarrow> Inl e | Inr y \<Rightarrow> Inr (float_add x y))"

definition percent_of :: "pyfloat \<Rightarrow> int \<Rightarrow> py_error + pyfloat" where
  "percent_of x n =
     (case int_to_float n of
        Inl e \<Rightarrow> Inl e
      | Inr y \<Rightarrow>
          (case float_div x y of
             Inl e \<Rightarrow> Inl e
           | Inr q \<Rightarrow> Inr (float_mul q (Float 100))))"

text \<open>
  The result of \<^verbatim>\<open>calculate_fragmentation\<close>. The dictionary has the keys
  \<^verbatim>\<open>internal\<close> and \<^verbatim>\<open>external\<close> (both 0.0) for an unknown process or a process
  with no segment, and the four keys \<^verbatim>\<open>internal_bytes\<close>, \<^verbatim>\<open>external_bytes\<close>,
  \<^verbatim>\<open>internal_percent\<close>, \<^verbatim>\<open>external_percent\<close> otherwise.
\<close>

datatype fragmentation =
  NoSegments
| Fragmentation pyfloat pyfloat pyfloat pyfloat

fun internal_bytes :: "fragmentation \<Rightarrow> pyfloat" where
  "internal_bytes NoSegments = Float 0"
| "internal_bytes (Fragmentation ib eb ip ep) = ib"

fun external_bytes :: "fragmentation \<Rightarrow> pyfloat" where
  "external_bytes NoSegments = Float 0"
| "external_bytes (Fragmentation ib eb ip ep) = eb"

fun external_percent :: "fragmentation \<Rightarrow> pyfloat" where
  "external_percent NoSegments = Float 0"
| "external_percent (Fragmentation ib eb ip ep) = ep"

text \<open>
  The loop over neighbours in the list sorted by base; \<open>external_frag\<close> is the float
  it adds the gaps to.
\<close>

fun external_gaps :: "pyfloat \<Rightarrow> Segment list \<Rightarrow> py_error + pyfloat" where
  "external_gaps external_frag (cur # nxt # rest) =
     (if base nxt > base cur + limit cur then
        (case float_add_int external_frag (base nxt - (base cur + limit cur)) of
           Inl e \<Rightarrow> Inl e
         | Inr added \<Rightarrow> external_gaps added (nxt # rest))
      else external_gaps external_frag (nxt # rest))"
| "external_gaps external_frag rest = Inr external_frag"

text \<open>
  The percentages are \<^verbatim>\<open>frag / total_size * 100\<close> for a positive total size and the
  integer 0 otherwise, which is \<open>Float 0\<close> here.
\<close>

definition calculate_fragmentation :: "SegmentationEngine \<Rightarrow> int \<Rightarrow> py_error + fragmentation" where
  "calculate_fragmentation s process_id =
     (case map_of (segment_tables s) process_id of
        None \<Rightarrow> Inr NoSegments
      | Some segment_table \<Rightarrow>
          (let segs = map snd (segments segment_table) in
           if segs = [] then Inr NoSegments
           else
             let sorted_segments = sort_key base segs;
                 internal_frag = Float 0
             in case external_gaps (Float 0) sorted_segments of
                  Inl e \<Rightarrow> Inl e
                | Inr external_frag \<Rightarrow>
                    (let total_size = sum_list (map limit segs) in
                     case (if total_size > 0 then percent_of internal_frag total_size
                           else Inr (Float 0)) of
                       Inl e \<Rightarrow> Inl e
                     | Inr internal_pct \<Rightarrow>
                         (case (if total_size > 0 then percent_of external_frag total_size
                                else Inr (Float 0)) of
                            Inl e \<Rightarrow> Inl e
                          | Inr external_pct \<Rightarrow>
                              Inr (Fragmentation internal_frag external_frag
                                     internal_pct external_pct)))))"

text \<open>
  A fresh engine, process 1, then \<^verbatim>\<open>CODE\<close> and \<^verbatim>\<open>DATA\<close> of size
  \<^verbatim>\<open>0x1000\<close> (4096) each, both placed by the engine.
\<close>

definition code_data_engine :: SegmentationEngine where
  "code_data_engine =
     (let s1 = fst (Seg_create_process SegmentationEngine_init 1);
          s2 = fst (Seg_add_segment s1 1 0 ''CODE'' 4096 None)
      in fst (Seg_add_segment s2 1 1 ''DATA'' 4096 None))"

text \<open>
  The same, with the base \<^verbatim>\<open>0x1000\<close> of \<^verbatim>\<open>CODE\<close> given by the caller.
\<close>

definition explicit_code_engine :: SegmentationEngine where
  "explicit_code_engine =
     (let s1 = fst (Seg_create_process SegmentationEngine_init 1);
          s2 = fst (Seg_add_segment s1 1 0 ''CODE'' 4096 (Some 4096))
      in fst (Seg_add_segment s2 1 1 ''DATA'' 4096 None))"

section \<open>Paging engine: frames (physical\_memory.py)\<close>

datatype FrameStatus = FREE | ALLOCATED

text \<open>
  A frame. The fields \<^verbatim>\<open>size\<close>, \<^verbatim>\<open>process_id\<close> and \<^verbatim>\<open>page_id\<close> are
  \<open>frame_sz\<close>, \<open>fr_process_id\<close> and \<open>fr_page_id\<close> here. Frame ids are the indices
  \<^verbatim>\<open>range(num_frames)\<close>, hence natural numbers.
\<close>

record Frame =
  frame_id :: nat
  frame_sz :: int
  status :: FrameStatus
  fr_process_id :: "int option"
  fr_page_id :: "int option"
  allocated_size :: int

definition Frame_init :: "nat \<Rightarrow> int \<Rightarrow> Frame" where
  "Frame_init fid sz =
     \<lparr>frame_id = fid, frame_sz = sz, status = FREE, fr_process_id = None, fr_page_id = None,
      allocated_size = 0\<rparr>"

definition Frame_allocate :: "Frame \<Rightarrow> int \<Rightarrow> int \<Rightarrow> int \<Rightarrow> Frame \<times> bool" where
  "Frame_allocate frame pid page sz =
     (if status frame = FREE \<and> sz \<le> frame_sz frame then
        (frame\<lparr>status := ALLOCATED, fr_process_id := Some pid, fr_page_id := Some page,
               allocated_size := min sz (frame_sz frame)\<rparr>, True)
      else (frame, False))"

definition Frame_deallocate :: "Frame \<Rightarrow> Frame \<times> bool" where
  "Frame_deallocate frame =
     (if status frame = ALLOCATED then
        (frame\<lparr>status := FREE, fr_process_id := None, fr_page_id := None, allocated_size := 0\<rparr>,
         True)
      else (frame, False))"

record PhysicalMemory =
  pm_num_frames :: int
  pm_frame_size :: int
  frames :: "Frame list"
  next_frame_id :: int

definition PhysicalMemory_init :: "int \<Rightarrow> int \<Rightarrow> PhysicalMemory" where
  "PhysicalMemory_init n fsize =
     \<lparr>pm_num_frames = n, pm_frame_size = fsize,
      frames = map (\<lambda>i. Frame_init i fsize) [0..<nat n], next_frame_id = n\<rparr>"

definition get_frame :: "Frame list \<Rightarrow> nat \<Rightarrow> Frame option" where
  "get_frame fs fid = (if fid < length fs then Some (fs ! fid) else None)"

definition PhysicalMemory_reset :: "PhysicalMemory \<Rightarrow> PhysicalMemory" where
  "PhysicalMemory_reset pm = pm\<lparr>frames := map (\<lambda>frame. fst (Frame_deallocate frame)) (frames pm)\<rparr>"

section \<open>Paging engine: allocation strategies (allocator.py)\<close>

datatype AllocationStrategy = FIRST_FIT | BEST_FIT | NEXT_FIT

record MemoryAllocator =
  strategy :: AllocationStrategy
  next_fit_start :: nat

text \<open>
  Each strategy returns the frame list with the chosen frame allocated, and the id of
  that frame, or \<open>None\<close> when no frame was allocated.
\<close>

fun first_fit :: "Frame list \<Rightarrow> int \<Rightarrow> int \<Rightarrow> int \<Rightarrow> Frame list \<times> nat option" where
  "first_fit [] pid page sz = ([], None)"
| "first_fit (frame # rest) pid page sz =
     (if status frame = FREE \<and> sz \<le> frame_sz frame then
        (case Frame_allocate frame pid page sz of
           (frame1, True) \<Rightarrow> (frame1 # rest, Some (frame_id frame1))
         | (frame1, False) \<Rightarrow>
             (case first_fit rest pid page sz of (rest1, r) \<Rightarrow> (frame1 # rest1, r)))
      else (case first_fit rest pid page sz of (rest1, r) \<Rightarrow> (frame # rest1, r)))"

text \<open>
  The scan of best-fit. \<open>i\<close> is the index of the frame at the head of the list;
  \<open>best_frame\<close> is the index of the best frame so far and \<open>best_waste\<close> its waste,
  with \<open>None\<close> for the initial \<^verbatim>\<open>float('inf')\<close>.
\<close>

fun best_fit_scan :: "int \<Rightarrow> Frame list \<Rightarrow> nat \<Rightarrow> nat option \<Rightarrow> int option \<Rightarrow> nat option" where
  "best_fit_scan sz [] i best_frame best_waste = best_frame"
| "best_fit_scan sz (frame # rest) i best_frame best_waste =
     (if status frame = FREE \<and> sz \<le> frame_sz frame then
        (let waste = frame_sz frame - sz in
         if (case best_waste of None \<Rightarrow> True | Some w \<Rightarrow> waste < w)
         then best_fit_scan sz rest (Suc i) (Some i) (Some waste)
         else best_fit_scan sz rest (Suc i) best_frame best_waste)
      else best_fit_scan sz rest (Suc i) best_frame best_waste)"

definition best_fit :: "Frame list \<Rightarrow> int \<Rightarrow> int \<Rightarrow> int \<Rightarrow> Frame list \<times> nat option" where
  "best_fit fs pid page sz =
     (case best_fit_scan sz fs 0 None None of
        None \<Rightarrow> (fs, None)
      | Some b \<Rightarrow>
          (case Frame_allocate (fs ! b) pid page sz of
             (frame1, True) \<Rightarrow> (fs[b := frame1], Some (frame_id frame1))
           | (frame1, False) \<Rightarrow> (fs[b := frame1], None)))"

text \<open>
  One of the two loops of next-fit over a range of indices. An index beyond the list
  raises IndexError. A success gives the index and the id of the frame.
\<close>

fun next_fit_loop ::
  "Frame list \<Rightarrow> nat list \<Rightarrow> int \<Rightarrow> int \<Rightarrow> int \<Rightarrow> Frame list \<times> (py_error + (nat \<times> nat) option)" where
  "next_fit_loop fs [] pid page sz = (fs, Inr None)"
| "next_fit_loop fs (i # rest) pid page sz =
     (if length fs \<le> i then (fs, Inl IndexError)
      else if status (fs ! i) = FREE \<and> sz \<le> frame_sz (fs ! i) then
        (case Frame_allocate (fs ! i) pid page sz of
           (frame1, True) \<Rightarrow> (fs[i := frame1], Inr (Some (i, frame_id frame1)))
         | (frame1, False) \<Rightarrow> next_fit_loop (fs[i := frame1]) rest pid page sz)
      else next_fit_loop fs rest pid page sz)"

definition next_fit ::
  "Frame list \<Rightarrow> nat \<Rightarrow> int \<Rightarrow> int \<Rightarrow> int \<Rightarrow> (nat \<times> Frame list) \<times> (py_error + nat option)" where
  "next_fit fs start pid page sz =
     (case next_fit_loop fs [start..<length fs] pid page sz of
        (fs1, Inl e) \<Rightarrow> ((start, fs1), Inl e)
      | (fs1, Inr (Some (i, fid))) \<Rightarrow> ((Suc i mod length fs, fs1), Inr (Some fid))
      | (fs1, Inr None) \<Rightarrow>
          (case next_fit_loop fs1 [0..<start] pid page sz of
             (fs2, Inl e) \<Rightarrow> ((start, fs2), Inl e)
           | (fs2, Inr (Some (i, fid))) \<Rightarrow> ((Suc i mod length fs, fs2), Inr (Some fid))
           | (fs2, Inr None) \<Rightarrow> ((start, fs2), Inr None)))"

definition MemoryAllocator_allocate ::
  "MemoryAllocator \<Rightarrow> Frame list \<Rightarrow> int \<Rightarrow> int \<Rightarrow> int \<Rightarrow>
   (MemoryAllocator \<times> Frame list) \<times> (py_error + nat option)" where
  "MemoryAllocator_allocate a fs pid page sz =
     (case strategy a of
        FIRST_FIT \<Rightarrow> (case first_fit fs pid page sz of (fs1, r) \<Rightarrow> ((a, fs1), Inr r))
      | BEST_FIT \<Rightarrow> (case best_fit fs pid page sz of (fs1, r) \<Rightarrow> ((a, fs1), Inr r))
      | NEXT_FIT \<Rightarrow>
          (case next_fit fs (next_fit_start a) pid page sz of
             ((start1, fs1), r) \<Rightarrow> ((a\<lparr>next_fit_start := start1\<rparr>, fs1), r)))"

definition set_strategy :: "MemoryAllocator \<Rightarrow> AllocationStrategy \<Rightarrow> MemoryAllocator" where
  "set_strategy a st =
     (if st = NEXT_FIT then a\<lparr>strategy := st, next_fit_start := 0\<rparr> else a\<lparr>strategy := st\<rparr>)"

section \<open>Paging engine: page tables (page\_table.py)\<close>

datatype PageStatus = NOT_PRESENT | PRESENT | MODIFIED | REFERENCED

record PageTableEntry =
  pte_page_id :: int
  pte_frame_id :: "nat option"
  pte_status :: PageStatus
  valid :: bool
  present_bit :: bool
  modified_bit :: bool
  referenced_bit :: bool
  protection_bits :: int

definition PageTableEntry_init :: "int \<Rightarrow> PageTableEntry" where
  "PageTableEntry_init page =
     \<lparr>pte_page_id = page, pte_frame_id = None, pte_status = NOT_PRESENT, valid = False,
      present_bit = False, modified_bit = False, referenced_bit = False, protection_bits = 0\<rparr>"

definition map_to_frame :: "PageTableEntry \<Rightarrow> nat \<Rightarrow> PageTableEntry" where
  "map_to_frame e fid =
     e\<lparr>pte_frame_id := Some fid, present_bit := True, valid := True, pte_status := PRESENT\<rparr>"

definition unmap_frame :: "PageTableEntry \<Rightarrow> PageTableEntry" where
  "unmap_frame e = e\<lparr>pte_frame_id := None, present_bit := False, pte_status := NOT_PRESENT\<rparr>"

definition mark_modified :: "PageTableEntry \<Rightarrow> PageTableEntry" where
  "mark_modified e = e\<lparr>modified_bit := True, pte_status := MODIFIED\<rparr>"

definition mark_referenced :: "PageTableEntry \<Rightarrow> PageTableEntry" where
  "mark_referenced e =
     (if pte_status e = PRESENT then e\<lparr>referenced_bit := True, pte_status := REFERENCED\<rparr>
      else e\<lparr>referenced_bit := True\<rparr>)"

record PageTable =
  pt_process_id :: int
  page_size :: int
  entries :: "(int \<times> PageTableEntry) list"

definition PageTable_init :: "int \<Rightarrow> int \<Rightarrow> PageTable" where
  "PageTable_init pid psize = \<lparr>pt_process_id = pid, page_size = psize, entries = []\<rparr>"

definition get_entry :: "PageTable \<Rightarrow> int \<Rightarrow> PageTableEntry option" where
  "get_entry pt page = map_of (entries pt) page"

definition set_entry :: "PageTable \<Rightarrow> int \<Rightarrow> PageTableEntry \<Rightarrow> PageTable" where
  "set_entry pt page e = pt\<lparr>entries := AList.update page e (entries pt)\<rparr>"

definition create_page :: "PageTable \<Rightarrow> int \<Rightarrow> PageTable" where
  "create_page pt page =
     (if get_entry pt page = None then set_entry pt page (PageTableEntry_init page) else pt)"

definition get_mapped_pages :: "PageTable \<Rightarrow> int list" where
  "get_mapped_pages pt = map fst (filter (\<lambda>item. present_bit (snd item)) (entries pt))"

text \<open>
  \<^verbatim>\<open>PageTable.translate_address\<close>: floor division and remainder, which raise
  ZeroDivisionError for a page size of 0.
\<close>

definition PageTable_translate_address :: "PageTable \<Rightarrow> int \<Rightarrow> py_error + (int \<times> int)" where
  "PageTable_translate_address pt logical_address =
     (if page_size pt = 0 then Inl ZeroDivisionError
      else Inr (logical_address div page_size pt, logical_address mod page_size pt))"

definition total_pages :: "PageTable \<Rightarrow> nat" where
  "total_pages pt = length (entries pt)"

section \<open>Paging engine: the simulator (paging\_engine.py)\<close>

record process_info =
  num_pages :: int
  allocated_pages :: int

record PagingSimulator =
  physical_memory :: PhysicalMemory
  page_tables :: "(int \<times> PageTable) list"
  allocator :: MemoryAllocator
  sim_page_faults :: nat
  successful_translations :: nat
  processes :: "(int \<times> process_info) list"

definition PagingSimulator_init :: "int \<Rightarrow> int \<Rightarrow> AllocationStrategy \<Rightarrow> PagingSimulator" where
  "PagingSimulator_init n fsize st =
     \<lparr>physical_memory = PhysicalMemory_init n fsize, page_tables = [],
      allocator = \<lparr>strategy = st, next_fit_start = 0\<rparr>,
      sim_page_faults = 0, successful_translations = 0, processes = []\<rparr>"

definition set_frames :: "PagingSimulator \<Rightarrow> Frame list \<Rightarrow> PagingSimulator" where
  "set_frames s fs = s\<lparr>physical_memory := (physical_memory s)\<lparr>frames := fs\<rparr>\<rparr>"

definition Paging_create_process :: "PagingSimulator \<Rightarrow> int \<Rightarrow> int \<Rightarrow> PagingSimulator \<times> bool" where
  "Paging_create_process s pid n =
     (if map_of (page_tables s) pid \<noteq> None then (s, False)
      else
        let page_table = fold (\<lambda>i pt. create_page pt (int i)) [0..<nat n]
                           (PageTable_init pid (pm_frame_size (physical_memory s)))
        in (s\<lparr>page_tables := AList.update pid page_table (page_tables s),
               processes := AList.update pid \<lparr>num_pages = n, allocated_pages = 0\<rparr> (processes s)\<rparr>,
            True))"

text \<open>One round of the loop of \<^verbatim>\<open>remove_process\<close> over the mapped pages.\<close>

definition free_mapped_frame :: "PageTable \<Rightarrow> int \<Rightarrow> Frame list \<Rightarrow> Frame list" where
  "free_mapped_frame pt page fs =
     (case get_entry pt page of
        None \<Rightarrow> fs
      | Some entry \<Rightarrow>
          (case pte_frame_id entry of
             None \<Rightarrow> fs
           | Some fid \<Rightarrow>
               (case get_frame fs fid of
                  None \<Rightarrow> fs
                | Some frame \<Rightarrow> fs[fid := fst (Frame_deallocate frame)])))"

definition Paging_remove_process :: "PagingSimulator \<Rightarrow> int \<Rightarrow> PagingSimulator \<times> bool" where
  "Paging_remove_process s pid =
     (case map_of (page_tables s) pid of
        None \<Rightarrow> (s, False)
      | Some page_table \<Rightarrow>
          ((set_frames s (fold (free_mapped_frame page_table) (get_mapped_pages page_table)
                            (frames (physical_memory s))))
             \<lparr>page_tables := AList.delete pid (page_tables s),
              processes := AList.delete pid (processes s)\<rparr>,
           True))"

text \<open>
  \<^verbatim>\<open>allocate_page\<close>. \<open>page_table\<close> is the table after the entry was created when
  it was missing; when the entry exists, \<open>page_table\<close> is the table as it was and
  \<open>s1\<close> is \<open>s\<close>.
\<close>

definition Paging_allocate_page ::
  "PagingSimulator \<Rightarrow> int \<Rightarrow> int \<Rightarrow> int option \<Rightarrow> PagingSimulator \<times> (py_error + nat option)" where
  "Paging_allocate_page s pid page size_arg =
     (case map_of (page_tables s) pid of
        None \<Rightarrow> (s, Inr None)
      | Some table0 \<Rightarrow>
          (let page_table = (case get_entry table0 page of
                               None \<Rightarrow> create_page table0 page
                             | Some e \<Rightarrow> table0);
               entry = (case get_entry table0 page of
                          None \<Rightarrow> PageTableEntry_init page
                        | Some e \<Rightarrow> e);
               s1 = s\<lparr>page_tables := AList.update pid page_table (page_tables s)\<rparr>
           in if present_bit entry \<and> pte_frame_id entry \<noteq> None then (s1, Inr (pte_frame_id entry))
              else
                let alloc_size = (case size_arg of
                                    None \<Rightarrow> pm_frame_size (physical_memory s)
                                  | Some sz \<Rightarrow> sz)
                in case MemoryAllocator_allocate (allocator s) (frames (physical_memory s))
                          pid page alloc_size of
                     ((a1, fs1), Inl e) \<Rightarrow> ((set_frames s1 fs1)\<lparr>allocator := a1\<rparr>, Inl e)
                   | ((a1, fs1), Inr None) \<Rightarrow> ((set_frames s1 fs1)\<lparr>allocator := a1\<rparr>, Inr None)
                   | ((a1, fs1), Inr (Some fid)) \<Rightarrow>
                       (let fs2 = (case get_frame fs1 fid of
                                     None \<Rightarrow> fs1
                                   | Some frame \<Rightarrow>
                                       fs1[fid := fst (Frame_allocate frame pid page alloc_size)]);
                            procs = (case map_of (processes s) pid of
                                       None \<Rightarrow> processes s
                                     | Some info \<Rightarrow>
                                         AList.update pid
                                           (info\<lparr>allocated_pages := allocated_pages info + 1\<rparr>)
                                           (processes s))
                        in ((set_frames s fs2)
                              \<lparr>page_tables :=
                                 AList.update pid (set_entry page_table page (map_to_frame entry fid))
                                   (page_tables s),
                               allocator := a1, processes := procs\<rparr>,
                            Inr (Some fid)))))"

definition Paging_deallocate_page :: "PagingSimulator \<Rightarrow> int \<Rightarrow> int \<Rightarrow> PagingSimulator \<times> bool" where
  "Paging_deallocate_page s pid page =
     (case map_of (page_tables s) pid of
        None \<Rightarrow> (s, False)
      | Some page_table \<Rightarrow>
          (case get_entry page_table page of
             None \<Rightarrow> (s, False)
           | Some entry \<Rightarrow>
               (case pte_frame_id entry of
                  None \<Rightarrow> (s, False)
                | Some fid \<Rightarrow>
                    if \<not> present_bit entry then (s, False)
                    else
                      let fs = frames (physical_memory s);
                          fs1 = (case get_frame fs fid of
                                   None \<Rightarrow> fs
                                 | Some frame \<Rightarrow> fs[fid := fst (Frame_deallocate frame)]);
                          procs = (case map_of (processes s) pid of
                                     None \<Rightarrow> processes s
                                   | Some info \<Rightarrow>
                                       AList.update pid
                                         (info\<lparr>allocated_pages := max 0 (allocated_pages info - 1)\<rparr>)
                                         (processes s))
                      in ((set_frames s fs1)
                            \<lparr>page_tables :=
                               AList.update pid (set_entry page_table page (unmap_frame entry))
                                 (page_tables s),
                             processes := procs\<rparr>,
                          True))))"

text \<open>
  \<^verbatim>\<open>translate_address\<close> returns \<^verbatim>\<open>None\<close> for an unknown process and otherwise the
  triple of physical address (or \<^verbatim>\<open>None\<close>), offset and fault flag.
\<close>

definition Paging_translate_address ::
  "PagingSimulator \<Rightarrow> int \<Rightarrow> int \<Rightarrow>
   PagingSimulator \<times> (py_error + (int option \<times> int \<times> bool) option)" where
  "Paging_translate_address s pid logical_address =
     (case map_of (page_tables s) pid of
        None \<Rightarrow> (s, Inr None)
      | Some page_table \<Rightarrow>
          (case PageTable_translate_address page_table logical_address of
             Inl e \<Rightarrow> (s, Inl e)
           | Inr (page, offset) \<Rightarrow>
               (case get_entry page_table page of
                  None \<Rightarrow>
                    (s\<lparr>sim_page_faults := sim_page_faults s + 1\<rparr>, Inr (Some (None, offset, True)))
                | Some entry \<Rightarrow>
                    (case (if present_bit entry then pte_frame_id entry else None) of
                       None \<Rightarrow>
                         (s\<lparr>sim_page_faults := sim_page_faults s + 1,
                            page_tables :=
                              AList.update pid (set_entry page_table page (mark_referenced entry))
                                (page_tables s)\<rparr>,
                          Inr (Some (None, offset, True)))
                     | Some fid \<Rightarrow>
                         (case get_frame (frames (physical_memory s)) fid of
                            None \<Rightarrow>
                              (s\<lparr>sim_page_faults := sim_page_faults s + 1\<rparr>,
                               Inr (Some (None, offset, True)))
                          | Some frame \<Rightarrow>
                              (s\<lparr>successful_translations := successful_translations s + 1,
                                 page_tables :=
                                   AList.update pid
                                     (set_entry page_table page (mark_referenced entry))
                                     (page_tables s)\<rparr>,
                               Inr (Some (Some (int fid * pm_frame_size (physical_memory s) + offset),
                                          offset, False))))))))"

definition Paging_access_page :: "PagingSimulator \<Rightarrow> int \<Rightarrow> int \<Rightarrow> bool \<Rightarrow> PagingSimulator \<times> bool" where
  "Paging_access_page s pid page write =
     (case map_of (page_tables s) pid of
        None \<Rightarrow> (s, False)
      | Some page_table \<Rightarrow>
          (case get_entry page_table page of
             None \<Rightarrow> (s\<lparr>sim_page_faults := sim_page_faults s + 1\<rparr>, False)
           | Some entry \<Rightarrow>
               if \<not> present_bit entry then (s\<lparr>sim_page_faults := sim_page_faults s + 1\<rparr>, False)
               else
                 let e1 = mark_referenced entry;
                     e2 = (if write then mark_modified e1 else e1)
                 in (s\<lparr>successful_translations := successful_translations s + 1,
                       page_tables := AList.update pid (set_entry page_table page e2) (page_tables s)\<rparr>,
                     True)))"

definition Paging_reset :: "PagingSimulator \<Rightarrow> PagingSimulator" where
  "Paging_reset s =
     s\<lparr>physical_memory := PhysicalMemory_reset (physical_memory s), page_tables := [],
       processes := [], sim_page_faults := 0, successful_translations := 0,
       allocator := (allocator s)\<lparr>next_fit_start := 0\<rparr>\<rparr>"

definition Paging_set_allocation_strategy :: "PagingSimulator \<Rightarrow> AllocationStrategy \<Rightarrow> PagingSimulator" where
  "Paging_set_allocation_strategy s st = s\<lparr>allocator := set_strategy (allocator s) st\<rparr>"

text \<open>The states the simulator reaches from a fresh instance by its public operations.\<close>

inductive reachable :: "PagingSimulator \<Rightarrow> bool" where
  fresh: "reachable (PagingSimulator_init n fsize st)"
| create_process: "reachable s \<Longrightarrow> reachable (fst (Paging_create_process s pid n))"
| allocate_page: "reachable s \<Longrightarrow> reachable (fst (Paging_allocate_page s pid page size_arg))"
| deallocate_page: "reachable s \<Longrightarrow> reachable (fst (Paging_deallocate_page s pid page))"
| remove_process: "reachable s \<Longrightarrow> reachable (fst (Paging_remove_process s pid))"
| translate_address: "reachable s \<Longrightarrow> reachable (fst (Paging_translate_address s pid logical_address))"
| access_page: "reachable s \<Longrightarrow> reachable (fst (Paging_access_page s pid page wr))"
| reset: "reachable s \<Longrightarrow> reachable (Paging_reset s)"
| set_allocation_strategy: "reachable s \<Longrightarrow> reachable (Paging_set_allocation_strategy s st)"

text \<open>The frame as a successful \<^verbatim>\<open>Frame.allocate\<close> leaves it.\<close>

definition allocated_frame :: "Frame \<Rightarrow> int \<Rightarrow> int \<Rightarrow> int \<Rightarrow> Frame" where
  "allocated_frame frame pid page sz =
     frame\<lparr>status := ALLOCATED, fr_process_id := Some pid, fr_page_id := Some page,
           allocated_size := min sz (frame_sz frame)\<rparr>"

text \<open>
  The page-table entry of page \<open>page\<close> of process \<open>pid\<close>, when the process and the
  entry exist.
\<close>

definition entry_of :: "(int \<times> PageTable) list \<Rightarrow> int \<Rightarrow> int \<Rightarrow> PageTableEntry option" where
  "entry_of tables pid page =
     (case map_of tables pid of
        None \<Rightarrow> None
      | Some page_table \<Rightarrow> get_entry page_table page)"

text \<open>
  The invariant of the simulator, over the frame list and the entries: frame ids are
  indices; an entry is present exactly when it has a frame id; a frame id in an entry
  is the index of an allocated frame; no two entries have the same frame id.
\<close>

definition entries_inv :: "Frame list \<Rightarrow> (int \<Rightarrow> int \<Rightarrow> PageTableEntry option) \<Rightarrow> bool" where
  "entries_inv fs ent \<longleftrightarrow>
     (\<forall>i<length fs. frame_id (fs ! i) = i) \<and>
     (\<forall>pid page e. ent pid page = Some e \<longrightarrow> (present_bit e \<longleftrightarrow> pte_frame_id e \<noteq> None)) \<and>
     (\<forall>pid page e f. ent pid page = Some e \<and> pte_frame_id e = Some f \<longrightarrow>
        f < length fs \<and> status (fs ! f) = ALLOCATED) \<and>
     (\<forall>pid page e pid' page' e' f.
        ent pid page = Some e \<and> ent pid' page' = Some e' \<and>
        pte_frame_id e = Some f \<and> pte_frame_id e' = Some f \<longrightarrow> pid = pid' \<and> page = page')"

definition paging_inv :: "PagingSimulator \<Rightarrow> bool" where
  "paging_inv s \<longleftrightarrow>
     entries_inv (frames (physical_memory s)) (entry_of (page_tables s)) \<and>
     next_fit_start (allocator s) \<le> length (frames (physical_memory s))"

text \<open>
  A simulator with one frame of size 4, taken by page 0 of process 1.
\<close>

definition full_sim :: PagingSimulator where
  "full_sim =
     fst (Paging_allocate_page
            (fst (Paging_create_process (PagingSimulator_init 1 4 FIRST_FIT) 1 0)) 1 0 None)"

text \<open>
  A simulator with two frames of size 4 and two processes, each with its page 0 mapped.
\<close>

definition two_process_sim :: PagingSimulator where
  "two_process_sim =
     fst (Paging_allocate_page
            (fst (Paging_allocate_page
                    (fst (Paging_create_process
                            (fst (Paging_create_process (PagingSimulator_init 2 4 BEST_FIT) 1 0))
                            2 0))
                    1 0 None))
            2 0 None)"

text \<open>Three free frames of sizes 4, 2 and 2, as a frame list of their own.\<close>

definition frames_4_2_2 :: "Frame list" where
  "frames_4_2_2 = [Frame_init 0 4, Frame_init 1 2, Frame_init 2 2]"

section \<open>Properties of the page replacement engines\<close>

lemma first_index_None_iff: "first_index P xs = None \<longleftrightarrow> (\<forall>x\<in>set xs. \<not> P x)"
  by (induction xs) auto

lemma first_index_Some_iff:
  "first_index P xs = Some i \<longleftrightarrow> i < length xs \<and> P (xs ! i) \<and> (\<forall>j<i. \<not> P (xs ! j))"
proof (induction xs arbitrary: i)
  case Nil
  then show ?case by simp
next
  case (Cons x xs)
  show ?case
  proof (cases "P x")
    case True
    then show ?thesis by (cases i) auto
  next
    case False
    show ?thesis
    proof (cases i)
      case 0
      with False show ?thesis by auto
    next
      case (Suc k)
      have "(\<forall>j<Suc k. \<not> P ((x # xs) ! j)) \<longleftrightarrow> (\<forall>j<k. \<not> P (xs ! j))"
        using False by (auto simp: less_Suc_eq_0_disj)
      with False Suc Cons.IH [of k] show ?thesis by auto
    qed
  qed
qed

subsection \<open>The scan of the Optimal engine\<close>

text \<open>
  The scan stops at the first resident page that does not occur in the future references.
\<close>

lemma optimal_scan_never_used:
  assumes "i < length fs" "fs ! i = Some p" "p \<notin> set future"
    "\<forall>j<i. \<forall>q. fs ! j = Some q \<longrightarrow> q \<in> set future"
  shows "optimal_scan future fs ptr md = Some p"
  using assms
proof (induction fs arbitrary: i ptr md)
  case Nil
  then show ?case by simp
next
  case (Cons x fs)
  show ?case
  proof (cases i)
    case 0
    with Cons.prems have x: "x = Some p" by simp
    from Cons.prems(3) have "first_index (\<lambda>r. r = p) future = None"
      by (auto simp: first_index_None_iff)
    with x show ?thesis by simp
  next
    case (Suc k)
    from Cons.prems Suc have k: "k < length fs" "fs ! k = Some p" by auto
    have rest: "\<forall>j<k. \<forall>q. fs ! j = Some q \<longrightarrow> q \<in> set future"
    proof (intro allI impI)
      fix j q assume "j < k" "fs ! j = Some q"
      with Cons.prems(4) [rule_format, of "Suc j" q] Suc show "q \<in> set future" by simp
    qed
    note IH = Cons.IH [OF k Cons.prems(3) rest]
    show ?thesis
    proof (cases x)
      case None
      with IH show ?thesis by simp
    next
      case (Some q)
      with Cons.prems(4) [rule_format, of 0 q] Suc have "q \<in> set future" by simp
      then obtain e where e: "first_index (\<lambda>r. r = q) future = Some e"
        by (cases "first_index (\<lambda>r. r = q) future") (auto simp: first_index_None_iff)
      with IH Some show ?thesis by simp
    qed
  qed
qed

text \<open>
  A page whose distance does not exceed the running maximum leaves the candidate as it is.
\<close>

lemma optimal_scan_keep:
  assumes "\<forall>q. Some q \<in> set fs \<longrightarrow> (\<exists>e. first_index (\<lambda>r. r = q) future = Some e \<and> int e \<le> md)"
  shows "optimal_scan future fs ptr md = ptr"
  using assms
proof (induction fs)
  case Nil
  then show ?case by simp
next
  case (Cons x fs)
  then show ?case by (cases x) auto
qed

text \<open>
  When every resident page recurs, the scan returns the page with the largest distance,
  and among the slots it scans, the first that reaches that distance.
\<close>

lemma optimal_scan_farthest:
  assumes "i < length fs" "fs ! i = Some p" "first_index (\<lambda>r. r = p) future = Some d" "md < int d"
    "\<forall>j<length fs. \<forall>q. fs ! j = Some q \<longrightarrow>
        (\<exists>e. first_index (\<lambda>r. r = q) future = Some e \<and> e \<le> d \<and> (j < i \<longrightarrow> e < d))"
  shows "optimal_scan future fs ptr md = Some p"
  using assms
proof (induction fs arbitrary: i ptr md)
  case Nil
  then show ?case by simp
next
  case (Cons x fs)
  show ?case
  proof (cases i)
    case 0
    with Cons.prems have x: "x = Some p" by simp
    have "\<forall>q. Some q \<in> set fs \<longrightarrow> (\<exists>e. first_index (\<lambda>r. r = q) future = Some e \<and> int e \<le> int d)"
    proof (intro allI impI)
      fix q assume "Some q \<in> set fs"
      then obtain j where "j < length fs" "fs ! j = Some q" by (auto simp: in_set_conv_nth)
      with Cons.prems(5) [rule_format, of "Suc j" q]
      have "\<exists>e. first_index (\<lambda>r. r = q) future = Some e \<and> e \<le> d \<and> (Suc j < i \<longrightarrow> e < d)"
        by simp
      then show "\<exists>e. first_index (\<lambda>r. r = q) future = Some e \<and> int e \<le> int d" by auto
    qed
    then have "optimal_scan future fs (Some p) (int d) = Some p" by (rule optimal_scan_keep)
    with x Cons.prems show ?thesis by simp
  next
    case (Suc k)
    have rest: "\<forall>j<length fs. \<forall>q. fs ! j = Some q \<longrightarrow>
        (\<exists>e. first_index (\<lambda>r. r = q) future = Some e \<and> e \<le> d \<and> (j < k \<longrightarrow> e < d))"
    proof (intro allI impI)
      fix j q assume "j < length fs" "fs ! j = Some q"
      with Cons.prems(5) [rule_format, of "Suc j" q] Suc
      show "\<exists>e. first_index (\<lambda>r. r = q) future = Some e \<and> e \<le> d \<and> (j < k \<longrightarrow> e < d)"
        by simp
    qed
    from Cons.prems Suc have k: "k < length fs" "fs ! k = Some p" by auto
    show ?thesis
    proof (cases x)
      case None
      with Cons.IH [OF k Cons.prems(3,4) rest] show ?thesis by simp
    next
      case (Some q)
      with Cons.prems(5) [rule_format, of 0 q] Suc
      obtain e where e: "first_index (\<lambda>r. r = q) future = Some e" "e < d"
        by auto
      show ?thesis
      proof (cases "md < int e")
        case True
        from e have "int e < int d" by simp
        from Cons.IH [OF k Cons.prems(3) this rest] Some e True show ?thesis by simp
      next
        case False
        with Cons.IH [OF k Cons.prems(3,4) rest] Some e show ?thesis by simp
      qed
    qed
  qed
qed

lemma optimal_evict_step:
  assumes fault: "\<not> is_page_loaded (slots s) page_id"
    and full: "get_free_frame_index (slots s) = None"
    and found: "optimal_scan (future_list future_references) (slots s) None (- 1) = Some p"
    and slot: "slot_of (slots s) p = Some i"
  shows "Optimal_access_page s page_id future_references =
     (s\<lparr>page_faults := page_faults s + 1, slots := (slots s)[i := Some page_id]\<rparr>,
      Inr ((new_result page_id ''OPTIMAL'')
             \<lparr>res_page_fault := True, replaced_page := Some p, frame_index := Some i\<rparr>))"
  using assms by (simp add: Optimal_access_page_def Let_def)

text \<open>
  Claim C1. On a fault of the Optimal engine with no free slot, the page \<open>p\<close> in slot
  \<open>i\<close> is evicted (the new page takes slot \<open>i\<close>, the fault counter goes up by one
  and the result names \<open>p\<close> and \<open>i\<close>) in each of these cases: \<open>p\<close> is the first
  resident page in slot order with no occurrence in the future references; every
  resident page recurs and \<open>p\<close> has the largest next-occurrence index, strictly larger
  than that of every page in an earlier slot; the future references are empty and
  \<open>i\<close> is slot 0.
\<close>

theorem optimal_eviction_rule:
  assumes fault: "\<not> is_page_loaded (slots s) page_id"
    and full: "get_free_frame_index (slots s) = None"
    and slot: "i < length (slots s)" "slots s ! i = Some p"
    and rule:
      "(p \<notin> set (future_list future_references) \<and>
        (\<forall>j<i. \<forall>q. slots s ! j = Some q \<longrightarrow> q \<in> set (future_list future_references)))
       \<or> (\<exists>d. first_index (\<lambda>r. r = p) (future_list future_references) = Some d \<and>
                (\<forall>j<length (slots s). \<forall>q. slots s ! j = Some q \<longrightarrow>
                   (\<exists>e. first_index (\<lambda>r. r = q) (future_list future_references) = Some e \<and>
                        e \<le> d \<and> (j < i \<longrightarrow> e < d))))
       \<or> (future_list future_references = [] \<and> i = 0)"
  shows "Optimal_access_page s page_id future_references =
     (s\<lparr>page_faults := page_faults s + 1, slots := (slots s)[i := Some page_id]\<rparr>,
      Inr ((new_result page_id ''OPTIMAL'')
             \<lparr>res_page_fault := True, replaced_page := Some p, frame_index := Some i\<rparr>))"
proof -
  let ?fut = "future_list future_references"
  from rule consider
    (never) "p \<notin> set ?fut" "\<forall>j<i. \<forall>q. slots s ! j = Some q \<longrightarrow> q \<in> set ?fut"
    | (farthest) d where "first_index (\<lambda>r. r = p) ?fut = Some d"
        "\<forall>j<length (slots s). \<forall>q. slots s ! j = Some q \<longrightarrow>
           (\<exists>e. first_index (\<lambda>r. r = q) ?fut = Some e \<and> e \<le> d \<and> (j < i \<longrightarrow> e < d))"
    by auto
  then have "optimal_scan ?fut (slots s) None (- 1) = Some p \<and> (\<forall>j<i. slots s ! j \<noteq> Some p)"
  proof cases
    case never
    from optimal_scan_never_used [OF slot never] never show ?thesis by auto
  next
    case farthest
    have "(- 1 :: int) < int d" by simp
    from optimal_scan_farthest [OF slot farthest(1) this farthest(2)]
    have "optimal_scan ?fut (slots s) None (- 1) = Some p" .
    moreover have "\<forall>j<i. slots s ! j \<noteq> Some p"
    proof (intro allI impI notI)
      fix j assume j: "j < i" "slots s ! j = Some p"
      with slot have "j < length (slots s)" by simp
      with farthest(2) [rule_format, of j p] j farthest(1) show False by simp
    qed
    ultimately show ?thesis by simp
  qed
  then have found: "optimal_scan ?fut (slots s) None (- 1) = Some p"
    and first: "\<forall>j<i. slots s ! j \<noteq> Some p" by simp_all
  from slot first have "slot_of (slots s) p = Some i"
    by (simp add: slot_of_def first_index_Some_iff)
  with fault full found show ?thesis by (rule optimal_evict_step)
qed

text \<open>
  The instance of the specification: resident pages 1 and 2 in two slots, future
  references 1, 2, 3, and a fault for page 3 evicts page 2 from slot 1. With the
  future references 2 alone, page 1 in slot 0 never recurs and is evicted; with no
  future references, slot 0 is evicted.
\<close>

theorem optimal_eviction_rule_witness:
  "Optimal_access_page
     \<lparr>pra_num_frames = 2, slots = [Some 1, Some 2], page_faults = 2, page_hits = 0\<rparr>
     3 (Some [1, 2, 3]) =
   (\<lparr>pra_num_frames = 2, slots = [Some 1, Some 3], page_faults = 3, page_hits = 0\<rparr>,
    Inr \<lparr>res_page_id = 3, res_page_fault = True, replaced_page = Some 2,
         frame_index = Some 1, algorithm = ''OPTIMAL''\<rparr>) \<and>
   Optimal_access_page
     \<lparr>pra_num_frames = 2, slots = [Some 1, Some 2], page_faults = 2, page_hits = 0\<rparr>
     3 (Some [2]) =
   (\<lparr>pra_num_frames = 2, slots = [Some 3, Some 2], page_faults = 3, page_hits = 0\<rparr>,
    Inr \<lparr>res_page_id = 3, res_page_fault = True, replaced_page = Some 1,
         frame_index = Some 0, algorithm = ''OPTIMAL''\<rparr>) \<and>
   Optimal_access_page
     \<lparr>pra_num_frames = 2, slots = [Some 1, Some 2], page_faults = 2, page_hits = 0\<rparr>
     3 None =
   (\<lparr>pra_num_frames = 2, slots = [Some 3, Some 2], page_faults = 3, page_hits = 0\<rparr>,
    Inr \<lparr>res_page_id = 3, res_page_fault = True, replaced_page = Some 1,
         frame_index = Some 0, algorithm = ''OPTIMAL''\<rparr>)"
  using
    optimal_eviction_rule [of "\<lparr>pra_num_frames = 2, slots = [Some 1, Some 2], page_faults = 2, page_hits = 0\<rparr>"
      3 1 2 "Some [1, 2, 3]"]
    optimal_eviction_rule [of "\<lparr>pra_num_frames = 2, slots = [Some 1, Some 2], page_faults = 2, page_hits = 0\<rparr>"
      3 0 1 "Some [2]"]
    optimal_eviction_rule [of "\<lparr>pra_num_frames = 2, slots = [Some 1, Some 2], page_faults = 2, page_hits = 0\<rparr>"
      3 0 1 None]
  by (simp add: is_page_loaded_def get_free_frame_index_def future_list_def new_result_def
      less_Suc_eq_0_disj)

text \<open>
  Claim C2. A fresh engine with 3 frames and the accesses 1, 2, 3, 1, 2, 4, 5, 1:
  FIFO and LRU both count 6 faults and 2 hits; the sixth access (page 4) replaces
  page 1 under FIFO and page 3 under LRU; the slots end as 4, 5, 1 under FIFO and as
  5, 1, 4 under LRU.
\<close>

theorem replacement_policy_divergence:
  "page_faults (fst (FIFO_run (FIFOReplacement_init 3) [1, 2, 3, 1, 2, 4, 5, 1])) = 6 \<and>
   page_hits (fst (FIFO_run (FIFOReplacement_init 3) [1, 2, 3, 1, 2, 4, 5, 1])) = 2 \<and>
   slots (fst (FIFO_run (FIFOReplacement_init 3) [1, 2, 3, 1, 2, 4, 5, 1])) = [Some 4, Some 5, Some 1] \<and>
   map res_page_id (snd (FIFO_run (FIFOReplacement_init 3) [1, 2, 3, 1, 2, 4, 5, 1])) = [1, 2, 3, 1, 2, 4, 5, 1] \<and>
   map res_page_fault (snd (FIFO_run (FIFOReplacement_init 3) [1, 2, 3, 1, 2, 4, 5, 1])) =
     [True, True, True, False, False, True, True, True] \<and>
   map replaced_page (snd (FIFO_run (FIFOReplacement_init 3) [1, 2, 3, 1, 2, 4, 5, 1])) =
     [None, None, None, None, None, Some 1, Some 2, Some 3] \<and>
   page_faults (fst (LRU_run (LRUReplacement_init 3) [1, 2, 3, 1, 2, 4, 5, 1])) = 6 \<and>
   page_hits (fst (LRU_run (LRUReplacement_init 3) [1, 2, 3, 1, 2, 4, 5, 1])) = 2 \<and>
   slots (fst (LRU_run (LRUReplacement_init 3) [1, 2, 3, 1, 2, 4, 5, 1])) = [Some 5, Some 1, Some 4] \<and>
   map res_page_id (snd (LRU_run (LRUReplacement_init 3) [1, 2, 3, 1, 2, 4, 5, 1])) = [1, 2, 3, 1, 2, 4, 5, 1] \<and>
   map res_page_fault (snd (LRU_run (LRUReplacement_init 3) [1, 2, 3, 1, 2, 4, 5, 1])) =
     [True, True, True, False, False, True, True, True] \<and>
   map replaced_page (snd (LRU_run (LRUReplacement_init 3) [1, 2, 3, 1, 2, 4, 5, 1])) =
     [None, None, None, None, None, Some 3, Some 1, Some 2]"
  by code_simp

section \<open>Properties of the virtual memory manager\<close>

text \<open>
  Claim C8. An access by an unregistered process, or to a page that is not in the
  process's registered list, returns a result with \<^verbatim>\<open>success\<close> false and
  \<^verbatim>\<open>page_fault\<close> false and leaves the whole manager (engine, backing store,
  swap counters) as it was.
\<close>

theorem access_page_hard_error:
  assumes "map_of (process_pages s) process_id = None \<or>
           (\<exists>pages. map_of (process_pages s) process_id = Some pages \<and> page_id \<notin> set pages)"
  shows "\<exists>r. VM_access_page s process_id page_id write future_references = (s, Inr r) \<and>
             success r = False \<and> page_fault r = False"
  using assms by (auto simp: VM_access_page_def)

text \<open>
  Both cases on a manager with processes 1 and 2: process 7 is unknown, and page 5
  is not a page of process 1.
\<close>

theorem access_page_hard_error_witness:
  "(map_of (process_pages shared_page_vm) 7 = None \<and>
    (\<exists>r. VM_access_page shared_page_vm 7 0 False None = (shared_page_vm, Inr r) \<and>
         success r = False \<and> page_fault r = False)) \<and>
   (map_of (process_pages shared_page_vm) 1 = Some [0] \<and> (5::int) \<notin> set [0] \<and>
    (\<exists>r. VM_access_page shared_page_vm 1 5 True None = (shared_page_vm, Inr r) \<and>
         success r = False \<and> page_fault r = False))"
proof -
  have pp: "process_pages shared_page_vm = [(1, [0]), (2, [0])]" by code_simp
  have a: "map_of (process_pages shared_page_vm) 7 = None" by (simp add: pp)
  have b: "map_of (process_pages shared_page_vm) 1 = Some [0]" by (simp add: pp)
  from a access_page_hard_error [of shared_page_vm 7 0 False None]
    b access_page_hard_error [of shared_page_vm 1 5 True None]
  show ?thesis by simp
qed

lemma stale_entry_vm_FIFO:
  "stale_entry_vm FIFO =
     \<lparr>vm_num_frames = 2, frame_size = 4, vm_algorithm = FIFO,
      replacement = FIFO_engine \<lparr>pra_num_frames = 2, slots = [Some 2, Some 3], page_faults = 3,
                                page_hits = 0, queue = [1, 2, 3]\<rparr>,
      backing_store = [(2, [0, 0, 0, 0]), (3, [0, 0, 0, 0]), (4, [0, 0, 0, 0])],
      process_pages = [(2, [2, 3, 4])], swap_ins = 3, swap_outs = 0, address_cache = []\<rparr>"
  by code_simp

lemma stale_entry_vm_LRU:
  "stale_entry_vm LRU =
     \<lparr>vm_num_frames = 2, frame_size = 4, vm_algorithm = LRU,
      replacement = LRU_engine \<lparr>pra_num_frames = 2, slots = [Some 2, Some 3], page_faults = 3,
                                page_hits = 0, access_order = [1, 2, 3]\<rparr>,
      backing_store = [(2, [0, 0, 0, 0]), (3, [0, 0, 0, 0]), (4, [0, 0, 0, 0])],
      process_pages = [(2, [2, 3, 4])], swap_ins = 3, swap_outs = 0, address_cache = []\<rparr>"
  by code_simp

lemma slot_of_None: "\<not> is_page_loaded fs p \<Longrightarrow> slot_of fs p = None"
  by (auto simp: is_page_loaded_def slot_of_def first_index_None_iff)

lemma remove_process_engine:
  "replacement (fst (VM_remove_process s0 pid0)) =
     engine_set_slots (replacement s0) (engine_slots (replacement (fst (VM_remove_process s0 pid0))))"
  by (cases "replacement s0")
     (auto simp: VM_remove_process_def split: option.splits prod.splits)

text \<open>
  Claim C9. When the slots are full, the requested page is registered, seeded and not
  resident, and the head of the FIFO queue (or of the LRU recency list) is a page that
  occupies no slot, the access returns a result: the fault is counted, the stale head
  is dropped, no slot changes, nothing is replaced and no exception is raised. The
  last conjunct says that \<^verbatim>\<open>remove_process\<close> changes nothing of the engine but
  its slots, so the order structure keeps the removed pages.
\<close>

theorem stale_order_entry_not_found:
  assumes "map_of (process_pages s) process_id = Some pages" and "page_id \<in> set pages"
    and "\<not> is_page_loaded (engine_slots (replacement s)) page_id"
    and "has_page (backing_store s) page_id"
    and "get_free_frame_index (engine_slots (replacement s)) = None"
    and "\<not> is_page_loaded (engine_slots (replacement s)) stale"
  shows "(replacement s = FIFO_engine e \<and> queue e = stale # rest \<longrightarrow>
            VM_access_page s process_id page_id write future_references =
              (s\<lparr>replacement := FIFO_engine (e\<lparr>page_faults := page_faults e + 1, queue := rest\<rparr>),
                 swap_ins := swap_ins s + 1\<rparr>,
               Inr (Completed ((new_result page_id ''FIFO'')\<lparr>res_page_fault := True\<rparr>) True False)))
       \<and> (replacement s = LRU_engine l \<and> access_order l = stale # rest \<longrightarrow>
            VM_access_page s process_id page_id write future_references =
              (s\<lparr>replacement := LRU_engine (l\<lparr>page_faults := page_faults l + 1, access_order := rest\<rparr>),
                 swap_ins := swap_ins s + 1\<rparr>,
               Inr (Completed ((new_result page_id ''LRU'')\<lparr>res_page_fault := True\<rparr>) True False)))
       \<and> replacement (fst (VM_remove_process s0 pid0)) =
            engine_set_slots (replacement s0) (engine_slots (replacement (fst (VM_remove_process s0 pid0))))"
proof (intro conjI impI)
  assume e: "replacement s = FIFO_engine e \<and> queue e = stale # rest"
  with assms have "FIFO_access_page e page_id =
      (e\<lparr>page_faults := page_faults e + 1, queue := rest\<rparr>,
       (new_result page_id ''FIFO'')\<lparr>res_page_fault := True\<rparr>)"
    by (simp add: FIFO_access_page_def Let_def slot_of_None)
  with e assms show "VM_access_page s process_id page_id write future_references =
      (s\<lparr>replacement := FIFO_engine (e\<lparr>page_faults := page_faults e + 1, queue := rest\<rparr>),
         swap_ins := swap_ins s + 1\<rparr>,
       Inr (Completed ((new_result page_id ''FIFO'')\<lparr>res_page_fault := True\<rparr>) True False))"
    by (simp add: VM_access_page_def new_result_def)
next
  assume l: "replacement s = LRU_engine l \<and> access_order l = stale # rest"
  with assms have "LRU_access_page l page_id =
      (l\<lparr>page_faults := page_faults l + 1, access_order := rest\<rparr>,
       (new_result page_id ''LRU'')\<lparr>res_page_fault := True\<rparr>)"
    by (simp add: LRU_access_page_def Let_def slot_of_None)
  with l assms show "VM_access_page s process_id page_id write future_references =
      (s\<lparr>replacement := LRU_engine (l\<lparr>page_faults := page_faults l + 1, access_order := rest\<rparr>),
         swap_ins := swap_ins s + 1\<rparr>,
       Inr (Completed ((new_result page_id ''LRU'')\<lparr>res_page_fault := True\<rparr>) True False))"
    by (simp add: VM_access_page_def new_result_def)
next
  show "replacement (fst (VM_remove_process s0 pid0)) =
     engine_set_slots (replacement s0) (engine_slots (replacement (fst (VM_remove_process s0 pid0))))"
    by (rule remove_process_engine)
qed


text \<open>
  The scenario run for both policies: the access to page 4 finds the stale page 1 at
  the head of the order structure and returns with no replacement.
\<close>

theorem stale_order_entry_not_found_witness:
  "VM_access_page (stale_entry_vm FIFO) 2 4 False None =
     ((stale_entry_vm FIFO)
        \<lparr>replacement := FIFO_engine \<lparr>pra_num_frames = 2, slots = [Some 2, Some 3],
                                       page_faults = 4, page_hits = 0, queue = [2, 3]\<rparr>,
         swap_ins := 4\<rparr>,
      Inr (Completed \<lparr>res_page_id = 4, res_page_fault = True, replaced_page = None,
                      frame_index = None, algorithm = ''FIFO''\<rparr> True False)) \<and>
   VM_access_page (stale_entry_vm LRU) 2 4 False None =
     ((stale_entry_vm LRU)
        \<lparr>replacement := LRU_engine \<lparr>pra_num_frames = 2, slots = [Some 2, Some 3],
                                     page_faults = 4, page_hits = 0, access_order = [2, 3]\<rparr>,
         swap_ins := 4\<rparr>,
      Inr (Completed \<lparr>res_page_id = 4, res_page_fault = True, replaced_page = None,
                      frame_index = None, algorithm = ''LRU''\<rparr> True False))"
proof -
  have f: "map_of (process_pages (stale_entry_vm FIFO)) 2 = Some [2, 3, 4]"
      "(4::int) \<in> set [2, 3, 4]"
      "\<not> is_page_loaded (engine_slots (replacement (stale_entry_vm FIFO))) 4"
      "has_page (backing_store (stale_entry_vm FIFO)) 4"
      "get_free_frame_index (engine_slots (replacement (stale_entry_vm FIFO))) = None"
      "\<not> is_page_loaded (engine_slots (replacement (stale_entry_vm FIFO))) 1"
    by (simp_all add: stale_entry_vm_FIFO is_page_loaded_def has_page_def get_free_frame_index_def)
  have l: "map_of (process_pages (stale_entry_vm LRU)) 2 = Some [2, 3, 4]"
      "(4::int) \<in> set [2, 3, 4]"
      "\<not> is_page_loaded (engine_slots (replacement (stale_entry_vm LRU))) 4"
      "has_page (backing_store (stale_entry_vm LRU)) 4"
      "get_free_frame_index (engine_slots (replacement (stale_entry_vm LRU))) = None"
      "\<not> is_page_loaded (engine_slots (replacement (stale_entry_vm LRU))) 1"
    by (simp_all add: stale_entry_vm_LRU is_page_loaded_def has_page_def get_free_frame_index_def)
  from stale_order_entry_not_found [OF f, where rest = "[2, 3]"
      and future_references = None
      and e = "\<lparr>pra_num_frames = 2, slots = [Some 2, Some 3], page_faults = 3, page_hits = 0,
                queue = [1, 2, 3]\<rparr>"]
    stale_order_entry_not_found [OF l, where rest = "[2, 3]"
      and future_references = None
      and l = "\<lparr>pra_num_frames = 2, slots = [Some 2, Some 3], page_faults = 3, page_hits = 0,
                access_order = [1, 2, 3]\<rparr>"]
  show ?thesis
    by (simp add: stale_entry_vm_FIFO stale_entry_vm_LRU new_result_def)
qed


subsection \<open>Removing a process\<close>

lemma map_of_remove_page: "map_of (fst (remove_page bs p)) = (map_of bs)(p := None)"
  by (auto simp: remove_page_def has_page_def delete_conv')

lemma fold_free_page_store:
  "map_of (fst (fold free_page pages (bs, fs))) p =
     (if p \<in> set pages then None else map_of bs p)"
proof (induction pages arbitrary: bs fs)
  case Nil
  then show ?case by simp
next
  case (Cons a pages)
  obtain bs1 fs1 where step: "free_page a (bs, fs) = (bs1, fs1)" by (cases "free_page a (bs, fs)")
  then have "bs1 = fst (remove_page bs a)" by (auto simp: free_page_def Let_def split: if_splits)
  then have "map_of bs1 = (map_of bs)(a := None)" by (simp add: map_of_remove_page)
  with Cons.IH [of bs1 fs1] step show ?case by simp
qed

lemma clear_absent_page:
  "Some a \<notin> set fs \<Longrightarrow>
     map (\<lambda>loaded_page. if loaded_page = Some a then None else loaded_page) fs = fs"
  by (induction fs) auto

lemma fold_free_page_slots:
  "snd (fold free_page pages (bs, fs)) =
     map (\<lambda>loaded_page. if loaded_page \<in> Some ` set pages then None else loaded_page) fs"
proof (induction pages arbitrary: bs fs)
  case Nil
  then show ?case by (simp add: map_idI)
next
  case (Cons a pages)
  obtain bs1 fs1 where step: "free_page a (bs, fs) = (bs1, fs1)" by (cases "free_page a (bs, fs)")
  then have "fs1 = map (\<lambda>loaded_page. if loaded_page = Some a then None else loaded_page) fs"
    by (auto simp: free_page_def Let_def is_page_loaded_def clear_absent_page split: if_splits)
  with Cons.IH [of bs1 fs1] step show ?case by auto
qed

lemma engine_slots_set_slots: "engine_slots (engine_set_slots e fs) = fs"
  by (cases e) simp_all

lemma remove_process_effect:
  assumes "map_of (process_pages s) A = Some pagesA"
  shows "snd (VM_remove_process s A) = True"
    and "map_of (process_pages (fst (VM_remove_process s A))) = (map_of (process_pages s))(A := None)"
    and "map_of (backing_store (fst (VM_remove_process s A))) p =
           (if p \<in> set pagesA then None else map_of (backing_store s) p)"
    and "engine_slots (replacement (fst (VM_remove_process s A))) =
           map (\<lambda>loaded_page. if loaded_page \<in> Some ` set pagesA then None else loaded_page)
             (engine_slots (replacement s))"
proof -
  obtain bs fs where f: "fold free_page pagesA (backing_store s, engine_slots (replacement s)) = (bs, fs)"
    by (cases "fold free_page pagesA (backing_store s, engine_slots (replacement s))")
  from f fold_free_page_store [of pagesA "backing_store s" "engine_slots (replacement s)" p]
  have bs: "map_of bs p = (if p \<in> set pagesA then None else map_of (backing_store s) p)" by simp
  from f fold_free_page_slots [of pagesA "backing_store s" "engine_slots (replacement s)"]
  have fs: "fs = map (\<lambda>loaded_page. if loaded_page \<in> Some ` set pagesA then None else loaded_page)
             (engine_slots (replacement s))" by simp
  from assms f show "snd (VM_remove_process s A) = True" by (simp add: VM_remove_process_def)
  from assms f show "map_of (process_pages (fst (VM_remove_process s A))) = (map_of (process_pages s))(A := None)"
    by (simp add: VM_remove_process_def delete_conv')
  from assms f bs show "map_of (backing_store (fst (VM_remove_process s A))) p =
           (if p \<in> set pagesA then None else map_of (backing_store s) p)"
    by (simp add: VM_remove_process_def)
  from assms f fs show "engine_slots (replacement (fst (VM_remove_process s A))) =
           map (\<lambda>loaded_page. if loaded_page \<in> Some ` set pagesA then None else loaded_page)
             (engine_slots (replacement s))"
    by (simp add: VM_remove_process_def engine_slots_set_slots)
qed

text \<open>
  Claim C3, as amended. Page ids are one namespace for all processes. For distinct
  registered processes A and B, removing A keeps B registered and keeps, for every
  page of B whose id is not in A's list, its backing-store blob and every slot it
  occupies; every page id in A's list leaves the backing store and the slots; no
  other blob and no other slot changes.
\<close>

theorem remove_process_releases_listed_pages:
  assumes A: "map_of (process_pages s) A = Some pagesA"
    and B: "map_of (process_pages s) B = Some pagesB"
    and AB: "A \<noteq> B"
  shows "snd (VM_remove_process s A) = True \<and>
     map_of (process_pages (fst (VM_remove_process s A))) A = None \<and>
     map_of (process_pages (fst (VM_remove_process s A))) B = Some pagesB \<and>
     length (engine_slots (replacement (fst (VM_remove_process s A)))) =
       length (engine_slots (replacement s)) \<and>
     (\<forall>p\<in>set pagesB. p \<notin> set pagesA \<longrightarrow>
        load_page (backing_store (fst (VM_remove_process s A))) p = load_page (backing_store s) p \<and>
        (\<forall>i<length (engine_slots (replacement s)).
           engine_slots (replacement s) ! i = Some p \<longrightarrow>
           engine_slots (replacement (fst (VM_remove_process s A))) ! i = Some p)) \<and>
     (\<forall>p\<in>set pagesA.
        \<not> has_page (backing_store (fst (VM_remove_process s A))) p \<and>
        \<not> is_page_loaded (engine_slots (replacement (fst (VM_remove_process s A)))) p) \<and>
     (\<forall>p. p \<notin> set pagesA \<longrightarrow>
        load_page (backing_store (fst (VM_remove_process s A))) p = load_page (backing_store s) p) \<and>
     (\<forall>i<length (engine_slots (replacement s)).
        engine_slots (replacement s) ! i \<notin> Some ` set pagesA \<longrightarrow>
        engine_slots (replacement (fst (VM_remove_process s A))) ! i = engine_slots (replacement s) ! i)"
  using remove_process_effect [OF A] B AB
  by (auto simp: load_page_def has_page_def is_page_loaded_def)

text \<open>
  Processes 1 (pages 0, 1) and 2 (pages 2, 3), pages 0 and 2 resident: removing
  process 1 keeps page 2 in the backing store and in slot 1 and releases page 0.
\<close>

theorem remove_process_releases_listed_pages_witness:
  "map_of (process_pages disjoint_pages_vm) 1 = Some [0, 1] \<and>
   map_of (process_pages disjoint_pages_vm) 2 = Some [2, 3] \<and>
   engine_slots (replacement disjoint_pages_vm) = [Some 0, Some 2] \<and>
   snd (VM_remove_process disjoint_pages_vm 1) = True \<and>
   map_of (process_pages (fst (VM_remove_process disjoint_pages_vm 1))) 2 = Some [2, 3] \<and>
   load_page (backing_store (fst (VM_remove_process disjoint_pages_vm 1))) 2 =
     load_page (backing_store disjoint_pages_vm) 2 \<and>
   engine_slots (replacement (fst (VM_remove_process disjoint_pages_vm 1))) ! 1 = Some 2 \<and>
   \<not> has_page (backing_store (fst (VM_remove_process disjoint_pages_vm 1))) 0 \<and>
   \<not> is_page_loaded (engine_slots (replacement (fst (VM_remove_process disjoint_pages_vm 1)))) 0"
proof -
  have a: "map_of (process_pages disjoint_pages_vm) 1 = Some [0, 1]" by code_simp
  have b: "map_of (process_pages disjoint_pages_vm) 2 = Some [2, 3]" by code_simp
  have c: "(1::int) \<noteq> 2" by simp
  have d: "engine_slots (replacement disjoint_pages_vm) = [Some 0, Some 2]" by code_simp
  from remove_process_releases_listed_pages [OF a b c] show ?thesis
    by (simp add: a b d)
qed


text \<open>
  The claim as stated fails where B shares a page id with A: processes 1 and 2 are both
  registered with page 0, the page is seeded and resident in slot 0; after removing
  process 1, process 2 is still registered with page 0, but the page has no blob and
  slot 0 is empty.
\<close>

theorem remove_process_shared_page_counterexample:
  "map_of (process_pages shared_page_vm) 1 = Some [0] \<and>
   map_of (process_pages shared_page_vm) 2 = Some [0] \<and>
   has_page (backing_store shared_page_vm) 0 \<and>
   engine_slots (replacement shared_page_vm) ! 0 = Some 0 \<and>
   map_of (process_pages (fst (VM_remove_process shared_page_vm 1))) 2 = Some [0] \<and>
   \<not> has_page (backing_store (fst (VM_remove_process shared_page_vm 1))) 0 \<and>
   engine_slots (replacement (fst (VM_remove_process shared_page_vm 1))) ! 0 = None"
  by code_simp


section \<open>Properties of the segmentation engine\<close>

text \<open>Integers below \<open>2 ^ 53\<close> and small dyadic fractions are doubles.\<close>

lemma double_exact_int:
  assumes "\<bar>n\<bar> < 2 ^ 53"
  shows "double_exact (of_int n)"
proof -
  have "(0::nat) \<in> set [0..<1075]" by simp
  moreover have "of_int \<lfloor>(of_int n :: real) * 2 ^ (0::nat)\<rfloor> = (of_int n :: real) * 2 ^ (0::nat)"
    by simp
  moreover from assms have "\<bar>(of_int n :: real) * 2 ^ (0::nat)\<bar> < 2 ^ 53"
    by (simp flip: of_int_abs add: of_int_less_numeral_power_cancel_iff)
  ultimately show ?thesis unfolding double_exact_def by blast
qed

lemma double_exact_scaled:
  assumes "e < 1075" and "x * 2 ^ e = of_int n" and "\<bar>n\<bar> < 2 ^ 53"
  shows "double_exact x"
proof -
  from assms(1) have "e \<in> set [0..<1075]" by simp
  moreover from assms(2) have "of_int \<lfloor>x * 2 ^ e\<rfloor> = x * 2 ^ e" by simp
  moreover from assms(2,3) have "\<bar>x * 2 ^ e\<bar> < 2 ^ 53"
    by (simp flip: of_int_abs add: of_int_less_numeral_power_cancel_iff)
  ultimately show ?thesis unfolding double_exact_def by blast
qed

lemma exact_values:
  "double_exact 0" "double_exact 256" "double_exact 4096" "double_exact 8192" "double_exact 100"
  "double_exact (1 / 32)" "double_exact (25 / 8)"
proof -
  show "double_exact 0" using double_exact_int [of 0] by simp
  show "double_exact 256" using double_exact_int [of 256] by simp
  show "double_exact 4096" using double_exact_int [of 4096] by simp
  show "double_exact 8192" using double_exact_int [of 8192] by simp
  show "double_exact 100" using double_exact_int [of 100] by simp
  show "double_exact (1 / 32)" by (rule double_exact_scaled [of 5 _ 1]) simp_all
  show "double_exact (25 / 8)" by (rule double_exact_scaled [of 3 _ 25]) simp_all
qed

lemma int_to_float_small:
  assumes "\<bar>n\<bar> < 2 ^ 53"
  shows "int_to_float n = Inr (Float (of_int n))"
proof -
  have "(2::int) ^ 53 \<le> 2 ^ 1024 - 2 ^ 970" by simp
  with assms have "\<not> \<bar>n\<bar> \<ge> 2 ^ 1024 - 2 ^ 970" by linarith
  with double_exact_int [OF assms] show ?thesis by (simp add: int_to_float_def)
qed

text \<open>A segment with a base given by the caller does not move the cursor.\<close>

lemma explicit_base_keeps_cursor:
  "next_base_address (fst (Seg_add_segment s process_id sid nm sz (Some b))) = next_base_address s"
  by (simp add: Seg_add_segment_def split: option.splits)

lemma auto_add_segment:
  assumes "map_of (segment_tables s) process_id = Some segment_table"
  shows "Seg_add_segment s process_id sid nm sz None =
     (s\<lparr>next_base_address := next_base_address s + (sz + 256),
        segment_tables :=
          AList.update process_id
            (segment_table\<lparr>segments :=
               AList.update sid (Segment_init sid nm (next_base_address s) sz)
                 (segments segment_table)\<rparr>)
            (segment_tables s)\<rparr>, True)"
  using assms by (simp add: Seg_add_segment_def SegmentTable_add_segment_def)

text \<open>
  The fragmentation of a process whose segments are \<^verbatim>\<open>CODE\<close> at 4096 and
  \<^verbatim>\<open>DATA\<close> at 8448, 4096 bytes each: every float operation is exact there.
\<close>

lemma code_data_fragmentation:
  assumes "map_of (segment_tables s) process_id = Some t"
    and "segments t =
      [(code_id, Segment_init code_id ''CODE'' 4096 4096),
       (data_id, Segment_init data_id ''DATA'' 8448 4096)]"
  shows "calculate_fragmentation s process_id =
           Inr (Fragmentation (Float 0) (Float 256) (Float 0) (Float 3.125))"
proof -
  have gap: "float_add_int (Float 0) 256 = Inr (Float 256)"
    using int_to_float_small [of 256] exact_values(2)
    by (simp add: float_add_int_def)
  have total: "int_to_float 8192 = Inr (Float 8192)"
    using int_to_float_small [of 8192] by simp
  have ip: "percent_of (Float 0) 8192 = Inr (Float 0)"
    using total exact_values(1) by (simp add: percent_of_def)
  have "(256::real) / 8192 = 1 / 32" by simp
  moreover have "(1::real) / 32 * 100 = 25 / 8" by simp
  ultimately have ep: "percent_of (Float 256) 8192 = Inr (Float 3.125)"
    using total exact_values(6,7) by (simp add: percent_of_def)
  from assms gap ip ep show ?thesis
    by (simp add: calculate_fragmentation_def Segment_init_def Let_def)
qed

text \<open>
  Claim C7, as amended. The cursor of a fresh engine is \<^verbatim>\<open>0x1000\<close> (4096). A
  segment of size \<open>sz\<close> added without a base to an existing process is placed at the
  cursor and moves the cursor by \<open>sz + 0x100\<close>; a segment added with a base given by
  the caller leaves the cursor where it is. When the cursor is at \<^verbatim>\<open>0x1000\<close> and a
  process with no segments gets \<^verbatim>\<open>CODE\<close> (size \<^verbatim>\<open>0x1000\<close>) placed by the
  engine, hence at \<^verbatim>\<open>0x1000\<close>, and directly after it \<^verbatim>\<open>DATA\<close> (size
  \<^verbatim>\<open>0x1000\<close>) placed by the engine, the base of \<^verbatim>\<open>DATA\<close> is \<^verbatim>\<open>0x2100\<close>
  (8448), the external fragmentation is \<^verbatim>\<open>0x100\<close> (256) bytes and its percentage
  is 3.125.
\<close>

theorem auto_placement_and_fragmentation:
  "next_base_address SegmentationEngine_init = 4096 \<and>
   (\<forall>(s :: SegmentationEngine) process_id segment_table sid nm sz.
      map_of (segment_tables s) process_id = Some segment_table \<longrightarrow>
      snd (Seg_add_segment s process_id sid nm sz None) = True \<and>
      next_base_address (fst (Seg_add_segment s process_id sid nm sz None)) =
        next_base_address s + (sz + 256) \<and>
      (\<exists>t. map_of (segment_tables (fst (Seg_add_segment s process_id sid nm sz None))) process_id = Some t \<and>
           map_of (segments t) sid = Some (Segment_init sid nm (next_base_address s) sz))) \<and>
   (\<forall>(s :: SegmentationEngine) process_id sid nm sz b.
      next_base_address (fst (Seg_add_segment s process_id sid nm sz (Some b))) =
        next_base_address s) \<and>
   (\<forall>(s :: SegmentationEngine) process_id segment_table code_id data_id.
      next_base_address s = 4096 \<and>
      map_of (segment_tables s) process_id = Some segment_table \<and>
      segments segment_table = [] \<and> code_id \<noteq> data_id \<longrightarrow>
      (\<exists>t. map_of (segment_tables
                (fst (Seg_add_segment
                        (fst (Seg_add_segment s process_id code_id ''CODE'' 4096 None))
                        process_id data_id ''DATA'' 4096 None))) process_id = Some t \<and>
           map_of (segments t) code_id = Some (Segment_init code_id ''CODE'' 4096 4096) \<and>
           map_of (segments t) data_id = Some (Segment_init data_id ''DATA'' 8448 4096)) \<and>
      calculate_fragmentation
        (fst (Seg_add_segment
                (fst (Seg_add_segment s process_id code_id ''CODE'' 4096 None))
                process_id data_id ''DATA'' 4096 None)) process_id =
        Inr (Fragmentation (Float 0) (Float 256) (Float 0) (Float 3.125)))"
proof (intro conjI allI impI)
  show "next_base_address SegmentationEngine_init = 4096" by (simp add: SegmentationEngine_init_def)
next
  fix s :: SegmentationEngine and process_id segment_table sid nm sz
  assume t: "map_of (segment_tables s) process_id = Some segment_table"
  note add = auto_add_segment [OF t, of sid nm sz]
  show "snd (Seg_add_segment s process_id sid nm sz None) = True" by (simp add: add)
  show "next_base_address (fst (Seg_add_segment s process_id sid nm sz None)) =
        next_base_address s + (sz + 256)" by (simp add: add)
  show "\<exists>t. map_of (segment_tables (fst (Seg_add_segment s process_id sid nm sz None))) process_id = Some t \<and>
           map_of (segments t) sid = Some (Segment_init sid nm (next_base_address s) sz)"
    by (simp add: add update_conv')
next
  fix s :: SegmentationEngine and process_id sid nm sz b
  show "next_base_address (fst (Seg_add_segment s process_id sid nm sz (Some b))) = next_base_address s"
    by (rule explicit_base_keeps_cursor)
next
  fix s :: SegmentationEngine and process_id :: int and segment_table :: SegmentTable
    and code_id data_id :: int
  assume a: "next_base_address s = 4096 \<and>
      map_of (segment_tables s) process_id = Some segment_table \<and>
      segments segment_table = [] \<and> code_id \<noteq> data_id"
  let ?t1 = "segment_table\<lparr>segments := [(code_id, Segment_init code_id ''CODE'' 4096 4096)]\<rparr>"
  let ?t2 = "segment_table\<lparr>segments :=
      [(code_id, Segment_init code_id ''CODE'' 4096 4096),
       (data_id, Segment_init data_id ''DATA'' 8448 4096)]\<rparr>"
  let ?s1 = "fst (Seg_add_segment s process_id code_id ''CODE'' 4096 None)"
  let ?s2 = "fst (Seg_add_segment ?s1 process_id data_id ''DATA'' 4096 None)"
  from a have s1: "?s1 = s\<lparr>next_base_address := 8448,
      segment_tables := AList.update process_id ?t1 (segment_tables s)\<rparr>"
    by (simp add: auto_add_segment)
  then have t1: "map_of (segment_tables ?s1) process_id = Some ?t1"
    and c1: "next_base_address ?s1 = 8448"
    by (simp_all add: update_conv')
  from a have "map_of (segment_tables ?s2) process_id = Some ?t2"
    by (simp add: auto_add_segment [OF t1] c1 update_conv')
  then have t2: "map_of (segment_tables ?s2) process_id = Some ?t2" .
  have segs: "segments ?t2 =
      [(code_id, Segment_init code_id ''CODE'' 4096 4096),
       (data_id, Segment_init data_id ''DATA'' 8448 4096)]" by simp
  from a t2 show "\<exists>t. map_of (segment_tables ?s2) process_id = Some t \<and>
           map_of (segments t) code_id = Some (Segment_init code_id ''CODE'' 4096 4096) \<and>
           map_of (segments t) data_id = Some (Segment_init data_id ''DATA'' 8448 4096)"
    by simp
  show "calculate_fragmentation ?s2 process_id =
        Inr (Fragmentation (Float 0) (Float 256) (Float 0) (Float 3.125))"
    by (rule code_data_fragmentation [OF t2 segs])
qed

lemma fresh_process_table:
  "map_of (segment_tables (fst (Seg_create_process SegmentationEngine_init 1))) 1 =
     Some \<lparr>st_process_id = 1, segments = []\<rparr>"
  "next_base_address (fst (Seg_create_process SegmentationEngine_init 1)) = 4096"
  by (simp_all add: Seg_create_process_def SegmentationEngine_init_def)

text \<open>
  A fresh engine with process 1: the first placement moves the cursor from 4096 to
  8448, and \<^verbatim>\<open>CODE\<close> then \<^verbatim>\<open>DATA\<close> give the numbers of the specification.
\<close>

theorem auto_placement_and_fragmentation_witness:
  "map_of (segment_tables (fst (Seg_create_process SegmentationEngine_init 1))) 1 =
     Some \<lparr>st_process_id = 1, segments = []\<rparr> \<and>
   next_base_address (fst (Seg_add_segment (fst (Seg_create_process SegmentationEngine_init 1))
      1 0 ''CODE'' 4096 None)) = 8448 \<and>
   (\<exists>t. map_of (segment_tables code_data_engine) 1 = Some t \<and>
        map_of (segments t) 0 = Some (Segment_init 0 ''CODE'' 4096 4096) \<and>
        map_of (segments t) 1 = Some (Segment_init 1 ''DATA'' 8448 4096)) \<and>
   calculate_fragmentation code_data_engine 1 =
     Inr (Fragmentation (Float 0) (Float 256) (Float 0) (Float 3.125))"
proof -
  let ?s = "fst (Seg_create_process SegmentationEngine_init 1)"
  note apf = auto_placement_and_fragmentation
  from apf have first: "\<And>sid nm sz.
      next_base_address (fst (Seg_add_segment ?s 1 sid nm sz None)) = next_base_address ?s + (sz + 256)"
    using fresh_process_table(1) by blast
  from apf have both:
      "(\<exists>t. map_of (segment_tables
                (fst (Seg_add_segment (fst (Seg_add_segment ?s 1 0 ''CODE'' 4096 None))
                        1 1 ''DATA'' 4096 None))) 1 = Some t \<and>
           map_of (segments t) 0 = Some (Segment_init 0 ''CODE'' 4096 4096) \<and>
           map_of (segments t) 1 = Some (Segment_init 1 ''DATA'' 8448 4096)) \<and>
       calculate_fragmentation
        (fst (Seg_add_segment (fst (Seg_add_segment ?s 1 0 ''CODE'' 4096 None))
                1 1 ''DATA'' 4096 None)) 1 =
        Inr (Fragmentation (Float 0) (Float 256) (Float 0) (Float 3.125))"
  proof -
    have pre: "next_base_address ?s = 4096 \<and>
        map_of (segment_tables ?s) 1 = Some \<lparr>st_process_id = 1, segments = []\<rparr> \<and>
        segments \<lparr>st_process_id = 1, segments = []\<rparr> = [] \<and> (0::int) \<noteq> 1"
      using fresh_process_table by simp
    from apf have "\<forall>(s :: SegmentationEngine) process_id segment_table code_id data_id.
      next_base_address s = 4096 \<and>
      map_of (segment_tables s) process_id = Some segment_table \<and>
      segments segment_table = [] \<and> code_id \<noteq> data_id \<longrightarrow>
      (\<exists>t. map_of (segment_tables
                (fst (Seg_add_segment
                        (fst (Seg_add_segment s process_id code_id ''CODE'' 4096 None))
                        process_id data_id ''DATA'' 4096 None))) process_id = Some t \<and>
           map_of (segments t) code_id = Some (Segment_init code_id ''CODE'' 4096 4096) \<and>
           map_of (segments t) data_id = Some (Segment_init data_id ''DATA'' 8448 4096)) \<and>
      calculate_fragmentation
        (fst (Seg_add_segment
                (fst (Seg_add_segment s process_id code_id ''CODE'' 4096 None))
                process_id data_id ''DATA'' 4096 None)) process_id =
        Inr (Fragmentation (Float 0) (Float 256) (Float 0) (Float 3.125))"
      by (elim conjE)
    from this [rule_format, OF pre] show ?thesis .
  qed
  have cde: "code_data_engine =
      fst (Seg_add_segment (fst (Seg_add_segment ?s 1 0 ''CODE'' 4096 None)) 1 1 ''DATA'' 4096 None)"
    by (simp add: code_data_engine_def Let_def)
  from first [of 0 "''CODE''" 4096] fresh_process_table both show ?thesis
    unfolding cde by simp
qed

text \<open>
  The claim as stated fails where the base \<^verbatim>\<open>0x1000\<close> of \<^verbatim>\<open>CODE\<close> is given by
  the caller: the cursor stays at \<^verbatim>\<open>0x1000\<close>, \<^verbatim>\<open>DATA\<close> is placed at
  \<^verbatim>\<open>0x1000\<close> (4096) too, and the external fragmentation is 0.
\<close>

theorem explicit_code_base_counterexample:
  "map_of (segment_tables explicit_code_engine) 1 =
     Some \<lparr>st_process_id = 1,
           segments = [(0, Segment_init 0 ''CODE'' 4096 4096),
                       (1, Segment_init 1 ''DATA'' 4096 4096)]\<rparr> \<and>
   calculate_fragmentation explicit_code_engine 1 =
     Inr (Fragmentation (Float 0) (Float 0) (Float 0) (Float 0))"
proof -
  have e: "explicit_code_engine =
     \<lparr>segment_tables = [(1, \<lparr>st_process_id = 1,
          segments = [(0, Segment_init 0 ''CODE'' 4096 4096), (1, Segment_init 1 ''DATA'' 4096 4096)]\<rparr>)],
      next_base_address = 8448, access_attempts = 0, access_successes = 0, bounds_violations = 0\<rparr>"
    by (simp add: explicit_code_engine_def Seg_create_process_def SegmentationEngine_init_def
        Seg_add_segment_def SegmentTable_add_segment_def)
  have total: "int_to_float 8192 = Inr (Float 8192)"
    using int_to_float_small [of 8192] by simp
  have ip: "percent_of (Float 0) 8192 = Inr (Float 0)"
    using total exact_values(1) by (simp add: percent_of_def)
  show ?thesis
    by (simp add: e calculate_fragmentation_def Segment_init_def ip Let_def)
qed

section \<open>Properties of the allocation strategies\<close>

text \<open>
  A frame that does not beat the running best waste leaves the best frame as it is.
\<close>

lemma best_fit_scan_keep:
  assumes "\<forall>frame\<in>set fs. status frame = FREE \<and> sz \<le> frame_sz frame \<longrightarrow> w \<le> frame_sz frame - sz"
  shows "best_fit_scan sz fs i best (Some w) = best"
  using assms by (induction fs arbitrary: i) (auto simp: Let_def)

text \<open>
  The scan returns the index of the fitting frame of least waste, the first one among
  equals: \<open>i\<close> is the index of the head of the list that is still to be scanned.
\<close>

lemma best_fit_scan_least_waste:
  assumes "b < length fs" "status (fs ! b) = FREE" "sz \<le> frame_sz (fs ! b)"
    and "case best_waste of None \<Rightarrow> True | Some w \<Rightarrow> frame_sz (fs ! b) - sz < w"
    and "\<forall>j<length fs. status (fs ! j) = FREE \<and> sz \<le> frame_sz (fs ! j) \<longrightarrow>
           frame_sz (fs ! b) - sz \<le> frame_sz (fs ! j) - sz \<and>
           (j < b \<longrightarrow> frame_sz (fs ! b) - sz < frame_sz (fs ! j) - sz)"
  shows "best_fit_scan sz fs i best best_waste = Some (i + b)"
  using assms
proof (induction fs arbitrary: i b best best_waste)
  case Nil
  then show ?case by simp
next
  case (Cons x fs)
  show ?case
  proof (cases b)
    case 0
    have "\<forall>frame\<in>set fs. status frame = FREE \<and> sz \<le> frame_sz frame \<longrightarrow>
            frame_sz x - sz \<le> frame_sz frame - sz"
    proof (intro ballI impI)
      fix frame assume "frame \<in> set fs" and fit: "status frame = FREE \<and> sz \<le> frame_sz frame"
      then obtain j where j: "j < length fs" "fs ! j = frame" by (auto simp: in_set_conv_nth)
      with Cons.prems(5) [rule_format, of "Suc j"] fit 0
      show "frame_sz x - sz \<le> frame_sz frame - sz" by simp
    qed
    then have "best_fit_scan sz fs (Suc i) (Some i) (Some (frame_sz x - sz)) = Some i"
      by (rule best_fit_scan_keep)
    with 0 Cons.prems(2,3,4) show ?thesis by (simp add: Let_def split: option.splits)
  next
    case (Suc k)
    from Cons.prems Suc have k: "k < length fs" "status (fs ! k) = FREE" "sz \<le> frame_sz (fs ! k)"
      by simp_all
    have rest: "\<forall>j<length fs. status (fs ! j) = FREE \<and> sz \<le> frame_sz (fs ! j) \<longrightarrow>
           frame_sz (fs ! k) - sz \<le> frame_sz (fs ! j) - sz \<and>
           (j < k \<longrightarrow> frame_sz (fs ! k) - sz < frame_sz (fs ! j) - sz)"
    proof (intro allI impI)
      fix j assume "j < length fs" "status (fs ! j) = FREE \<and> sz \<le> frame_sz (fs ! j)"
      with Cons.prems(5) [rule_format, of "Suc j"] Suc
      show "frame_sz (fs ! k) - sz \<le> frame_sz (fs ! j) - sz \<and>
           (j < k \<longrightarrow> frame_sz (fs ! k) - sz < frame_sz (fs ! j) - sz)" by simp
    qed
    from Cons.prems(4) Suc
    have bw: "case best_waste of None \<Rightarrow> True | Some w \<Rightarrow> frame_sz (fs ! k) - sz < w"
      by (cases best_waste) simp_all
    show ?thesis
    proof (cases "status x = FREE \<and> sz \<le> frame_sz x")
      case False
      with Cons.IH [OF k bw rest, of "Suc i" best] Suc show ?thesis by auto
    next
      case True
      with Cons.prems(5) [rule_format, of 0] Suc
      have less: "frame_sz (fs ! k) - sz < frame_sz x - sz" by simp
      show ?thesis
      proof (cases "case best_waste of None \<Rightarrow> True | Some w \<Rightarrow> frame_sz x - sz < w")
        case True
        have "case Some (frame_sz x - sz) of None \<Rightarrow> True | Some w \<Rightarrow> frame_sz (fs ! k) - sz < w"
          using less by simp
        from Cons.IH [OF k this rest, of "Suc i" "Some i"] True \<open>status x = FREE \<and> sz \<le> frame_sz x\<close> Suc
        show ?thesis by (simp add: Let_def)
      next
        case False
        with Cons.IH [OF k bw rest, of "Suc i" best] True Suc show ?thesis by (simp add: Let_def)
      qed
    qed
  qed
qed

lemma best_fit_scan_none:
  assumes "\<forall>frame\<in>set fs. \<not> (status frame = FREE \<and> sz \<le> frame_sz frame)"
  shows "best_fit_scan sz fs i best best_waste = best"
  using assms by (induction fs arbitrary: i) auto

text \<open>
  Claim C4. If the frame at index \<open>b\<close> is free and fits, its waste
  \<open>frame_sz - sz\<close> is least among the free frames that fit, and every such frame at
  an earlier index has strictly more waste, then best-fit allocates the frame at
  \<open>b\<close> and returns its id.
\<close>

theorem best_fit_selects_least_waste:
  assumes "b < length fs" and "status (fs ! b) = FREE" and "sz \<le> frame_sz (fs ! b)"
    and "\<forall>j<length fs. status (fs ! j) = FREE \<and> sz \<le> frame_sz (fs ! j) \<longrightarrow>
           frame_sz (fs ! b) - sz \<le> frame_sz (fs ! j) - sz \<and>
           (j < b \<longrightarrow> frame_sz (fs ! b) - sz < frame_sz (fs ! j) - sz)"
  shows "best_fit fs pid page sz =
           (fs[b := (fs ! b)\<lparr>status := ALLOCATED, fr_process_id := Some pid,
                             fr_page_id := Some page, allocated_size := sz\<rparr>],
            Some (frame_id (fs ! b)))"
proof -
  have "best_fit_scan sz fs 0 None None = Some (0 + b)"
    by (rule best_fit_scan_least_waste [OF assms(1-3) _ assms(4)]) simp
  with assms(2,3) show ?thesis
    by (simp add: best_fit_def Frame_allocate_def min_def)
qed

text \<open>
  The instance of the specification: free frames of sizes 4, 2, 2 and a request of
  size 2; best-fit allocates the frame at index 1 and leaves index 2 free.
\<close>

theorem best_fit_selects_least_waste_witness:
  "best_fit frames_4_2_2 1 0 2 =
     ([Frame_init 0 4,
       \<lparr>frame_id = 1, frame_sz = 2, status = ALLOCATED, fr_process_id = Some 1,
        fr_page_id = Some 0, allocated_size = 2\<rparr>,
       Frame_init 2 2],
      Some 1)"
proof -
  have a: "1 < length frames_4_2_2" "status (frames_4_2_2 ! 1) = FREE"
      "2 \<le> frame_sz (frames_4_2_2 ! 1)"
    by (simp_all add: frames_4_2_2_def Frame_init_def)
  have b: "\<forall>j<length frames_4_2_2.
      status (frames_4_2_2 ! j) = FREE \<and> 2 \<le> frame_sz (frames_4_2_2 ! j) \<longrightarrow>
      frame_sz (frames_4_2_2 ! 1) - 2 \<le> frame_sz (frames_4_2_2 ! j) - 2 \<and>
      (j < 1 \<longrightarrow> frame_sz (frames_4_2_2 ! 1) - 2 < frame_sz (frames_4_2_2 ! j) - 2)"
    by (simp add: frames_4_2_2_def Frame_init_def less_Suc_eq_0_disj numeral_3_eq_3)
  from best_fit_selects_least_waste [OF a b, of 1 0] show ?thesis
    by (simp add: frames_4_2_2_def Frame_init_def)
qed


text \<open>
  What each strategy returns: either no frame, with the frame list as it was, or the id
  of a frame that was free and fits, with that frame allocated.
\<close>

lemma Frame_allocate_fits:
  "status frame = FREE \<Longrightarrow> sz \<le> frame_sz frame \<Longrightarrow>
     Frame_allocate frame pid page sz = (allocated_frame frame pid page sz, True)"
  by (simp add: Frame_allocate_def allocated_frame_def)

lemma first_fit_cases:
  assumes "first_fit fs pid page sz = (fs1, r)"
  shows "(r = None \<and> fs1 = fs \<and> (\<forall>frame\<in>set fs. \<not> (status frame = FREE \<and> sz \<le> frame_sz frame))) \<or>
         (\<exists>i<length fs. status (fs ! i) = FREE \<and> sz \<le> frame_sz (fs ! i) \<and>
             r = Some (frame_id (fs ! i)) \<and> fs1 = fs[i := allocated_frame (fs ! i) pid page sz])"
  using assms
proof (induction fs arbitrary: fs1 r)
  case Nil
  then show ?case by simp
next
  case (Cons x fs)
  show ?case
  proof (cases "status x = FREE \<and> sz \<le> frame_sz x")
    case True
    with Cons.prems have "r = Some (frame_id x)" "fs1 = allocated_frame x pid page sz # fs"
      by (auto simp: Frame_allocate_fits allocated_frame_def)
    then have "0 < length (x # fs) \<and> status ((x # fs) ! 0) = FREE \<and> sz \<le> frame_sz ((x # fs) ! 0) \<and>
             r = Some (frame_id ((x # fs) ! 0)) \<and>
             fs1 = (x # fs)[0 := allocated_frame ((x # fs) ! 0) pid page sz]"
      using True by simp
    then show ?thesis by blast
  next
    case False
    obtain rest1 r1 where rec: "first_fit fs pid page sz = (rest1, r1)"
      by (cases "first_fit fs pid page sz")
    with False Cons.prems have eq: "fs1 = x # rest1" "r = r1" by auto
    from Cons.IH [OF rec] show ?thesis
    proof
      assume "r1 = None \<and> rest1 = fs \<and> (\<forall>frame\<in>set fs. \<not> (status frame = FREE \<and> sz \<le> frame_sz frame))"
      with eq False show ?thesis by auto
    next
      assume "\<exists>i<length fs. status (fs ! i) = FREE \<and> sz \<le> frame_sz (fs ! i) \<and>
             r1 = Some (frame_id (fs ! i)) \<and> rest1 = fs[i := allocated_frame (fs ! i) pid page sz]"
      then obtain i where i: "i < length fs" "status (fs ! i) = FREE" "sz \<le> frame_sz (fs ! i)"
        "r1 = Some (frame_id (fs ! i))" "rest1 = fs[i := allocated_frame (fs ! i) pid page sz]"
        by blast
      with eq have "Suc i < length (x # fs) \<and> status ((x # fs) ! Suc i) = FREE \<and>
             sz \<le> frame_sz ((x # fs) ! Suc i) \<and> r = Some (frame_id ((x # fs) ! Suc i)) \<and>
             fs1 = (x # fs)[Suc i := allocated_frame ((x # fs) ! Suc i) pid page sz]"
        by simp
      then show ?thesis by blast
    qed
  qed
qed

lemma best_fit_scan_Some:
  assumes "best_fit_scan sz fs i best best_waste = Some b"
  shows "best = Some b \<or> (i \<le> b \<and> b - i < length fs \<and>
           status (fs ! (b - i)) = FREE \<and> sz \<le> frame_sz (fs ! (b - i)))"
  using assms
proof (induction fs arbitrary: i best best_waste)
  case Nil
  then show ?case by simp
next
  case (Cons x fs)
  show ?case
  proof (cases "status x = FREE \<and> sz \<le> frame_sz x \<and>
                (case best_waste of None \<Rightarrow> True | Some w \<Rightarrow> frame_sz x - sz < w)")
    case True
    with Cons.prems have "best_fit_scan sz fs (Suc i) (Some i) (Some (frame_sz x - sz)) = Some b"
      by (simp add: Let_def)
    from Cons.IH [OF this] show ?thesis
    proof
      assume "Some i = Some b"
      with True show ?thesis by simp
    next
      assume a: "Suc i \<le> b \<and> b - Suc i < length fs \<and>
        status (fs ! (b - Suc i)) = FREE \<and> sz \<le> frame_sz (fs ! (b - Suc i))"
      then have "b - i = Suc (b - Suc i)" by arith
      with a show ?thesis by simp
    qed
  next
    case False
    with Cons.prems have "best_fit_scan sz fs (Suc i) best best_waste = Some b"
      by (auto simp: Let_def split: if_splits)
    from Cons.IH [OF this] show ?thesis
    proof
      assume "best = Some b"
      then show ?thesis by simp
    next
      assume a: "Suc i \<le> b \<and> b - Suc i < length fs \<and>
        status (fs ! (b - Suc i)) = FREE \<and> sz \<le> frame_sz (fs ! (b - Suc i))"
      then have "b - i = Suc (b - Suc i)" by arith
      with a show ?thesis by simp
    qed
  qed
qed

lemma best_fit_cases:
  assumes "best_fit fs pid page sz = (fs1, r)"
  shows "(r = None \<and> fs1 = fs) \<or>
         (\<exists>i<length fs. status (fs ! i) = FREE \<and> sz \<le> frame_sz (fs ! i) \<and>
             r = Some (frame_id (fs ! i)) \<and> fs1 = fs[i := allocated_frame (fs ! i) pid page sz])"
proof (cases "best_fit_scan sz fs 0 None None")
  case None
  with assms show ?thesis by (simp add: best_fit_def)
next
  case (Some b)
  from best_fit_scan_Some [OF Some]
  have b: "b < length fs" "status (fs ! b) = FREE" "sz \<le> frame_sz (fs ! b)" by simp_all
  with assms Some have "r = Some (frame_id (fs ! b))" "fs1 = fs[b := allocated_frame (fs ! b) pid page sz]"
    by (simp_all add: best_fit_def Frame_allocate_fits allocated_frame_def)
  with b show ?thesis by blast
qed

lemma next_fit_loop_cases:
  assumes "next_fit_loop fs idxs pid page sz = (fs1, r)"
  shows "(case r of
            Inl e \<Rightarrow> fs1 = fs \<and> (\<exists>i\<in>set idxs. length fs \<le> i)
          | Inr None \<Rightarrow> fs1 = fs
          | Inr (Some (i, fid)) \<Rightarrow>
              i < length fs \<and> status (fs ! i) = FREE \<and> sz \<le> frame_sz (fs ! i) \<and>
              fid = frame_id (fs ! i) \<and> fs1 = fs[i := allocated_frame (fs ! i) pid page sz])"
  using assms
proof (induction idxs)
  case Nil
  then show ?case by auto
next
  case (Cons i idxs)
  show ?case
  proof (cases "length fs \<le> i")
    case True
    with Cons.prems show ?thesis by auto
  next
    case False
    show ?thesis
    proof (cases "status (fs ! i) = FREE \<and> sz \<le> frame_sz (fs ! i)")
      case True
      with False Cons.prems show ?thesis
        by (auto simp: Frame_allocate_fits allocated_frame_def)
    next
      case nofit: False
      with False Cons.prems have "next_fit_loop fs idxs pid page sz = (fs1, r)" by auto
      from Cons.IH [OF this] show ?thesis
        by (auto split: sum.splits option.splits)
    qed
  qed
qed

lemma next_fit_loop_no_fit:
  assumes "\<forall>frame\<in>set fs. \<not> (status frame = FREE \<and> sz \<le> frame_sz frame)"
    and "\<forall>i\<in>set idxs. i < length fs"
  shows "next_fit_loop fs idxs pid page sz = (fs, Inr None)"
  using assms by (induction idxs) auto


lemma allocate_cases:
  assumes "MemoryAllocator_allocate a fs pid page sz = ((a1, fs1), r)"
  shows "strategy a1 = strategy a \<and>
         (next_fit_start a \<le> length fs \<longrightarrow> next_fit_start a1 \<le> length fs) \<and>
         (case r of
            Inr (Some fid) \<Rightarrow>
              (\<exists>i<length fs. status (fs ! i) = FREE \<and> sz \<le> frame_sz (fs ! i) \<and>
                  fid = frame_id (fs ! i) \<and> fs1 = fs[i := allocated_frame (fs ! i) pid page sz])
          | Inr None \<Rightarrow> fs1 = fs
          | Inl e \<Rightarrow> fs1 = fs \<and> length fs < next_fit_start a)"
proof (cases "strategy a")
  case FIRST_FIT
  obtain fs' r' where f: "first_fit fs pid page sz = (fs', r')" by (cases "first_fit fs pid page sz")
  with assms FIRST_FIT have eq: "a1 = a" "fs1 = fs'" "r = Inr r'"
    by (simp_all add: MemoryAllocator_allocate_def)
  from first_fit_cases [OF f] eq show ?thesis by (auto split: option.splits)
next
  case BEST_FIT
  obtain fs' r' where f: "best_fit fs pid page sz = (fs', r')" by (cases "best_fit fs pid page sz")
  with assms BEST_FIT have eq: "a1 = a" "fs1 = fs'" "r = Inr r'"
    by (simp_all add: MemoryAllocator_allocate_def)
  from best_fit_cases [OF f] eq show ?thesis by (auto split: option.splits)
next
  case NEXT_FIT
  let ?start = "next_fit_start a"
  obtain fA rA where A: "next_fit_loop fs [?start..<length fs] pid page sz = (fA, rA)"
    by (cases "next_fit_loop fs [?start..<length fs] pid page sz")
  note cA = next_fit_loop_cases [OF A]
  from assms NEXT_FIT have nf: "next_fit fs ?start pid page sz = ((next_fit_start a1, fs1), r)"
      and st: "strategy a1 = strategy a"
    by (auto simp: MemoryAllocator_allocate_def split: prod.splits)
  show ?thesis
  proof (cases rA)
    case (Inl e)
    with cA show ?thesis by auto
  next
    case (Inr optA)
    show ?thesis
    proof (cases optA)
      case (Some hit)
      obtain i fid where hit: "hit = (i, fid)" by (cases hit)
      with nf A Inr Some have "r = Inr (Some fid)" "fs1 = fA" "next_fit_start a1 = Suc i mod length fs"
        by (simp_all add: next_fit_def)
      moreover from cA Inr Some hit have i: "i < length fs" "status (fs ! i) = FREE"
        "sz \<le> frame_sz (fs ! i)" "fid = frame_id (fs ! i)"
        "fA = fs[i := allocated_frame (fs ! i) pid page sz]" by simp_all
      moreover from i(1) have "Suc i mod length fs \<le> length fs"
        by (intro less_imp_le mod_less_divisor) auto
      ultimately show ?thesis using st by auto
    next
      case None
      with cA Inr have fA: "fA = fs" by simp
      obtain fB rB where B: "next_fit_loop fs [0..<?start] pid page sz = (fB, rB)"
        by (cases "next_fit_loop fs [0..<?start] pid page sz")
      note cB = next_fit_loop_cases [OF B]
      show ?thesis
      proof (cases rB)
        case (Inl e)
        with nf A Inr None fA B have "r = Inl e" "fs1 = fB" "next_fit_start a1 = ?start"
          by (simp_all add: next_fit_def)
        moreover from cB Inl have "fB = fs" "\<exists>i\<in>set [0..<?start]. length fs \<le> i" by simp_all
        ultimately show ?thesis using st by auto
      next
        case (Inr optB)
        show ?thesis
        proof (cases optB)
          case None
          with nf A \<open>rA = Inr optA\<close> \<open>optA = None\<close> fA B Inr
          have "r = Inr None" "fs1 = fB" "next_fit_start a1 = ?start"
            by (simp_all add: next_fit_def)
          moreover from cB Inr None have "fB = fs" by simp
          ultimately show ?thesis using st by auto
        next
          case (Some hit)
          obtain i fid where hit: "hit = (i, fid)" by (cases hit)
          with nf A \<open>rA = Inr optA\<close> \<open>optA = None\<close> fA B Inr Some
          have "r = Inr (Some fid)" "fs1 = fB" "next_fit_start a1 = Suc i mod length fs"
            by (simp_all add: next_fit_def)
          moreover from cB Inr Some hit have i: "i < length fs" "status (fs ! i) = FREE"
            "sz \<le> frame_sz (fs ! i)" "fid = frame_id (fs ! i)"
            "fB = fs[i := allocated_frame (fs ! i) pid page sz]" by simp_all
          moreover from i(1) have "Suc i mod length fs \<le> length fs"
            by (intro less_imp_le mod_less_divisor) auto
          ultimately show ?thesis using st by auto
        qed
      qed
    qed
  qed
qed

lemma allocate_no_fit:
  assumes "\<forall>frame\<in>set fs. \<not> (status frame = FREE \<and> sz \<le> frame_sz frame)"
    and "next_fit_start a \<le> length fs"
  shows "MemoryAllocator_allocate a fs pid page sz = ((a, fs), Inr None)"
proof (cases "strategy a")
  case FIRST_FIT
  obtain fs' r' where f: "first_fit fs pid page sz = (fs', r')" by (cases "first_fit fs pid page sz")
  from first_fit_cases [OF f] assms(1) have "r' = None \<and> fs' = fs"
    by (meson nth_mem)
  then have "r' = None" "fs' = fs" by simp_all
  with f FIRST_FIT show ?thesis by (simp add: MemoryAllocator_allocate_def)
next
  case BEST_FIT
  from assms(1) have "best_fit_scan sz fs 0 None None = None" by (rule best_fit_scan_none)
  with BEST_FIT show ?thesis by (simp add: MemoryAllocator_allocate_def best_fit_def)
next
  case NEXT_FIT
  have "next_fit_loop fs [next_fit_start a..<length fs] pid page sz = (fs, Inr None)"
    by (rule next_fit_loop_no_fit [OF assms(1)]) simp
  moreover have "next_fit_loop fs [0..<next_fit_start a] pid page sz = (fs, Inr None)"
    by (rule next_fit_loop_no_fit [OF assms(1)]) (use assms(2) in auto)
  ultimately show ?thesis using NEXT_FIT
    by (simp add: MemoryAllocator_allocate_def next_fit_def)
qed

section \<open>The invariant of the paging simulator\<close>

subsection \<open>The invariant under changes of entries and frames\<close>

lemma entries_inv_update_entry:
  assumes "entries_inv fs ent"
    and "present_bit e' \<longleftrightarrow> pte_frame_id e' \<noteq> None"
    and "\<forall>f. pte_frame_id e' = Some f \<longrightarrow> (\<exists>e. ent pid page = Some e \<and> pte_frame_id e = Some f)"
  shows "entries_inv fs (\<lambda>p q. if p = pid \<and> q = page then Some e' else ent p q)"
  using assms unfolding entries_inv_def
  apply (intro conjI)
     apply blast
    apply (simp split: if_splits)
   apply (simp split: if_splits)
   apply metis
  apply (simp split: if_splits)
  apply metis
  done

lemma entries_invI:
  assumes "\<And>i. i < length fs \<Longrightarrow> frame_id (fs ! i) = i"
    and "\<And>p q e. ent p q = Some e \<Longrightarrow> present_bit e \<longleftrightarrow> pte_frame_id e \<noteq> None"
    and "\<And>p q e f. ent p q = Some e \<Longrightarrow> pte_frame_id e = Some f \<Longrightarrow>
           f < length fs \<and> status (fs ! f) = ALLOCATED"
    and "\<And>p q e p' q' e' f. ent p q = Some e \<Longrightarrow> ent p' q' = Some e' \<Longrightarrow>
           pte_frame_id e = Some f \<Longrightarrow> pte_frame_id e' = Some f \<Longrightarrow> p = p' \<and> q = q'"
  shows "entries_inv fs ent"
  unfolding entries_inv_def using assms by blast

lemma entries_invD:
  assumes "entries_inv fs ent"
  shows "\<And>i. i < length fs \<Longrightarrow> frame_id (fs ! i) = i"
    and "\<And>p q e. ent p q = Some e \<Longrightarrow> present_bit e \<longleftrightarrow> pte_frame_id e \<noteq> None"
    and "\<And>p q e f. ent p q = Some e \<Longrightarrow> pte_frame_id e = Some f \<Longrightarrow>
           f < length fs \<and> status (fs ! f) = ALLOCATED"
    and "\<And>p q e p' q' e' f. ent p q = Some e \<Longrightarrow> ent p' q' = Some e' \<Longrightarrow>
           pte_frame_id e = Some f \<Longrightarrow> pte_frame_id e' = Some f \<Longrightarrow> p = p' \<and> q = q'"
  using assms unfolding entries_inv_def by blast+

lemma entries_inv_map:
  assumes inv: "entries_inv fs ent"
    and i: "i < length fs" "status (fs ! i) = FREE"
    and fr: "frame_id fr = i" "status fr = ALLOCATED"
    and e': "present_bit e'" "pte_frame_id e' = Some i"
  shows "entries_inv (fs[i := fr]) (\<lambda>p q. if p = pid \<and> q = page then Some e' else ent p q)"
proof (rule entries_invI)
  note ids = entries_invD(1) [OF inv] and bits = entries_invD(2) [OF inv]
    and alloc = entries_invD(3) [OF inv] and inj = entries_invD(4) [OF inv]
  have fresh: "pte_frame_id e \<noteq> Some i" if "ent p q = Some e" for p q e
    using alloc [OF that] i by auto
  {
    fix j assume "j < length (fs[i := fr])"
    with ids [of j] fr show "frame_id (fs[i := fr] ! j) = j" by (cases "j = i") auto
  next
    fix p q e assume "(if p = pid \<and> q = page then Some e' else ent p q) = Some e"
    with bits [of p q e] e' show "present_bit e \<longleftrightarrow> pte_frame_id e \<noteq> None"
      by (auto split: if_splits)
  next
    fix p q e f
    assume a: "(if p = pid \<and> q = page then Some e' else ent p q) = Some e"
      and b: "pte_frame_id e = Some f"
    show "f < length (fs[i := fr]) \<and> status (fs[i := fr] ! f) = ALLOCATED"
    proof (cases "p = pid \<and> q = page")
      case True
      with a b e' i fr show ?thesis by auto
    next
      case False
      with a have old: "ent p q = Some e" by auto
      from alloc [OF old b] have "f < length fs" "status (fs ! f) = ALLOCATED" by simp_all
      moreover from fresh [OF old] b have "f \<noteq> i" by auto
      ultimately show ?thesis by simp
    qed
  next
    fix p q e p' q' e2 f
    assume a: "(if p = pid \<and> q = page then Some e' else ent p q) = Some e"
      and a': "(if p' = pid \<and> q' = page then Some e' else ent p' q') = Some e2"
      and b: "pte_frame_id e = Some f" and b': "pte_frame_id e2 = Some f"
    show "p = p' \<and> q = q'"
    proof (cases "p = pid \<and> q = page")
      case True
      with a b e' have f: "f = i" by auto
      show ?thesis
      proof (cases "p' = pid \<and> q' = page")
        case True
        with \<open>p = pid \<and> q = page\<close> show ?thesis by simp
      next
        case False
        with a' have "ent p' q' = Some e2" by auto
        from fresh [OF this] b' f show ?thesis by simp
      qed
    next
      case False
      with a have old: "ent p q = Some e" by auto
      show ?thesis
      proof (cases "p' = pid \<and> q' = page")
        case True
        with a' b' e' have "f = i" by auto
        with fresh [OF old] b show ?thesis by simp
      next
        case False
        with a' have "ent p' q' = Some e2" by auto
        from inj [OF old this b b'] show ?thesis .
      qed
    qed
  }
qed

lemma entries_inv_unmap:
  assumes inv: "entries_inv fs ent"
    and e: "ent pid page = Some e" "pte_frame_id e = Some f"
    and fr: "frame_id fr = f"
    and e': "\<not> present_bit e'" "pte_frame_id e' = None"
  shows "entries_inv (fs[f := fr]) (\<lambda>p q. if p = pid \<and> q = page then Some e' else ent p q)"
proof (rule entries_invI)
  note ids = entries_invD(1) [OF inv] and bits = entries_invD(2) [OF inv]
    and alloc = entries_invD(3) [OF inv] and inj = entries_invD(4) [OF inv]
  {
    fix j assume "j < length (fs[f := fr])"
    with ids [of j] fr show "frame_id (fs[f := fr] ! j) = j" by (cases "j = f") auto
  next
    fix p q x assume "(if p = pid \<and> q = page then Some e' else ent p q) = Some x"
    with bits [of p q x] e' show "present_bit x \<longleftrightarrow> pte_frame_id x \<noteq> None"
      by (auto split: if_splits)
  next
    fix p q x g
    assume a: "(if p = pid \<and> q = page then Some e' else ent p q) = Some x"
      and b: "pte_frame_id x = Some g"
    with e' have other: "\<not> (p = pid \<and> q = page)" by auto
    with a have old: "ent p q = Some x" by auto
    from alloc [OF old b] have g: "g < length fs" "status (fs ! g) = ALLOCATED" by simp_all
    have "g \<noteq> f"
    proof
      assume "g = f"
      with inj [OF old e(1) b] e(2) have "p = pid \<and> q = page" by simp
      with other show False by simp
    qed
    with g show "g < length (fs[f := fr]) \<and> status (fs[f := fr] ! g) = ALLOCATED" by simp
  next
    fix p q x p' q' x' g
    assume a: "(if p = pid \<and> q = page then Some e' else ent p q) = Some x"
      and a': "(if p' = pid \<and> q' = page then Some e' else ent p' q') = Some x'"
      and b: "pte_frame_id x = Some g" and b': "pte_frame_id x' = Some g"
    from a b e' have old: "ent p q = Some x" by (auto split: if_splits)
    from a' b' e' have old': "ent p' q' = Some x'" by (auto split: if_splits)
    from inj [OF old old' b b'] show "p = p' \<and> q = q'" .
  }
qed

lemma entries_inv_remove:
  assumes inv: "entries_inv fs ent"
    and len: "length fs' = length fs"
    and ids': "\<And>i. i < length fs \<Longrightarrow> frame_id (fs' ! i) = i"
    and same: "\<And>i. i < length fs \<Longrightarrow>
                 (\<And>page e. ent pid page = Some e \<Longrightarrow> pte_frame_id e \<noteq> Some i) \<Longrightarrow>
                 fs' ! i = fs ! i"
  shows "entries_inv fs' (\<lambda>p q. if p = pid then None else ent p q)"
proof (rule entries_invI)
  note bits = entries_invD(2) [OF inv]
    and alloc = entries_invD(3) [OF inv] and inj = entries_invD(4) [OF inv]
  {
    fix j assume "j < length fs'"
    with len ids' [of j] show "frame_id (fs' ! j) = j" by simp
  next
    fix p q x assume "(if p = pid then None else ent p q) = Some x"
    with bits [of p q x] show "present_bit x \<longleftrightarrow> pte_frame_id x \<noteq> None"
      by (auto split: if_splits)
  next
    fix p q x g
    assume a: "(if p = pid then None else ent p q) = Some x" and b: "pte_frame_id x = Some g"
    then have other: "p \<noteq> pid" and old: "ent p q = Some x" by (auto split: if_splits)
    from alloc [OF old b] have g: "g < length fs" "status (fs ! g) = ALLOCATED" by simp_all
    have "fs' ! g = fs ! g"
    proof (rule same [OF g(1)])
      fix page e assume pe: "ent pid page = Some e"
      show "pte_frame_id e \<noteq> Some g"
      proof
        assume "pte_frame_id e = Some g"
        from inj [OF old pe b this] other show False by simp
      qed
    qed
    with g len show "g < length fs' \<and> status (fs' ! g) = ALLOCATED" by simp
  next
    fix p q x p' q' x' g
    assume a: "(if p = pid then None else ent p q) = Some x"
      and a': "(if p' = pid then None else ent p' q') = Some x'"
      and b: "pte_frame_id x = Some g" and b': "pte_frame_id x' = Some g"
    from a have old: "ent p q = Some x" by (auto split: if_splits)
    from a' have old': "ent p' q' = Some x'" by (auto split: if_splits)
    from inj [OF old old' b b'] show "p = p' \<and> q = q'" .
  }
qed

lemma entries_inv_add_table:
  assumes inv: "entries_inv fs ent"
    and new: "\<And>q e. newent q = Some e \<Longrightarrow> \<not> present_bit e \<and> pte_frame_id e = None"
  shows "entries_inv fs (\<lambda>p q. if p = pid then newent q else ent p q)"
proof (rule entries_invI)
  note ids = entries_invD(1) [OF inv] and bits = entries_invD(2) [OF inv]
    and alloc = entries_invD(3) [OF inv] and inj = entries_invD(4) [OF inv]
  {
    fix j assume "j < length fs"
    with ids [of j] show "frame_id (fs ! j) = j" by simp
  next
    fix p q x assume "(if p = pid then newent q else ent p q) = Some x"
    with bits [of p q x] new [of q x] show "present_bit x \<longleftrightarrow> pte_frame_id x \<noteq> None"
      by (auto split: if_splits)
  next
    fix p q x g
    assume a: "(if p = pid then newent q else ent p q) = Some x" and b: "pte_frame_id x = Some g"
    with new [of q x] have old: "ent p q = Some x" by (auto split: if_splits)
    from alloc [OF old b] show "g < length fs \<and> status (fs ! g) = ALLOCATED" .
  next
    fix p q x p' q' x' g
    assume a: "(if p = pid then newent q else ent p q) = Some x"
      and a': "(if p' = pid then newent q' else ent p' q') = Some x'"
      and b: "pte_frame_id x = Some g" and b': "pte_frame_id x' = Some g"
    from a b new [of q x] have old: "ent p q = Some x" by (auto split: if_splits)
    from a' b' new [of q' x'] have old': "ent p' q' = Some x'" by (auto split: if_splits)
    from inj [OF old old' b b'] show "p = p' \<and> q = q'" .
  }
qed

lemma entries_inv_empty:
  assumes "\<And>i. i < length fs \<Longrightarrow> frame_id (fs ! i) = i"
  shows "entries_inv fs (\<lambda>p q. None)"
  using assms by (simp add: entries_inv_def)

subsection \<open>Entries after an update of the page tables\<close>

lemma entry_of_set_entry:
  assumes "map_of tables pid = Some pt"
  shows "entry_of (AList.update pid (set_entry pt page e') tables) =
           (\<lambda>p q. if p = pid \<and> q = page then Some e' else entry_of tables p q)"
  using assms
  by (auto simp: fun_eq_iff entry_of_def update_conv' get_entry_def set_entry_def)

lemma entry_of_create_page:
  assumes "map_of tables pid = Some pt" and "get_entry pt page = None"
  shows "entry_of (AList.update pid (create_page pt page) tables) =
           (\<lambda>p q. if p = pid \<and> q = page then Some (PageTableEntry_init page)
                   else entry_of tables p q)"
  using assms
  by (auto simp: fun_eq_iff entry_of_def update_conv' get_entry_def set_entry_def create_page_def)

lemma entry_of_same_table:
  assumes "map_of tables pid = Some pt"
  shows "entry_of (AList.update pid pt tables) = entry_of tables"
  using assms by (auto simp: fun_eq_iff entry_of_def update_conv')

lemma entry_of_delete:
  "entry_of (AList.delete pid tables) = (\<lambda>p q. if p = pid then None else entry_of tables p q)"
  by (auto simp: fun_eq_iff entry_of_def delete_conv')

lemma entry_of_new_table:
  "entry_of (AList.update pid pt tables) =
     (\<lambda>p q. if p = pid then get_entry pt q else entry_of tables p q)"
  by (auto simp: fun_eq_iff entry_of_def update_conv')

lemma entry_of_Some:
  "map_of tables pid = Some pt \<Longrightarrow> get_entry pt page = r \<Longrightarrow> entry_of tables pid page = r"
  by (simp add: entry_of_def)

lemma mark_referenced_bits [simp]:
  "present_bit (mark_referenced e) = present_bit e"
  "pte_frame_id (mark_referenced e) = pte_frame_id e"
  by (simp_all add: mark_referenced_def)

lemma mark_modified_bits [simp]:
  "present_bit (mark_modified e) = present_bit e"
  "pte_frame_id (mark_modified e) = pte_frame_id e"
  by (simp_all add: mark_modified_def)

subsection \<open>The invariant under the operations\<close>

lemma paging_inv_flags:
  assumes inv: "paging_inv s"
    and pt: "map_of (page_tables s) pid = Some pt"
    and e: "get_entry pt page = Some e"
    and e': "present_bit e' = present_bit e" "pte_frame_id e' = pte_frame_id e"
    and s': "frames (physical_memory s') = frames (physical_memory s)"
      "next_fit_start (allocator s') = next_fit_start (allocator s)"
      "page_tables s' = AList.update pid (set_entry pt page e') (page_tables s)"
  shows "paging_inv s'"
proof -
  from inv have ei: "entries_inv (frames (physical_memory s)) (entry_of (page_tables s))"
    and cur: "next_fit_start (allocator s) \<le> length (frames (physical_memory s))"
    by (simp_all add: paging_inv_def)
  have old: "entry_of (page_tables s) pid page = Some e" using pt e by (rule entry_of_Some)
  from entries_invD(2) [OF ei old] e'
  have bits: "present_bit e' \<longleftrightarrow> pte_frame_id e' \<noteq> None" by simp
  have "entries_inv (frames (physical_memory s))
          (\<lambda>p q. if p = pid \<and> q = page then Some e' else entry_of (page_tables s) p q)"
    by (rule entries_inv_update_entry [OF ei bits]) (use old e' in auto)
  with s' cur pt show ?thesis by (simp add: paging_inv_def entry_of_set_entry)
qed

lemma paging_inv_counters:
  assumes "paging_inv s"
    and "frames (physical_memory s') = frames (physical_memory s)"
      "next_fit_start (allocator s') \<le> length (frames (physical_memory s))"
      "page_tables s' = page_tables s"
  shows "paging_inv s'"
  using assms by (simp add: paging_inv_def)

lemma translate_address_inv:
  assumes inv: "paging_inv s"
  shows "paging_inv (fst (Paging_translate_address s pid logical_address))"
proof (cases "map_of (page_tables s) pid")
  case None
  with inv show ?thesis by (simp add: Paging_translate_address_def)
next
  case (Some pt)
  show ?thesis
  proof (cases "PageTable_translate_address pt logical_address")
    case (Inl err)
    with Some inv show ?thesis by (simp add: Paging_translate_address_def)
  next
    case (Inr po)
    obtain page offset where po: "po = (page, offset)" by (cases po)
    show ?thesis
    proof (cases "get_entry pt page")
      case None
      with Some Inr po have "fst (Paging_translate_address s pid logical_address) =
          s\<lparr>sim_page_faults := sim_page_faults s + 1\<rparr>"
        by (simp add: Paging_translate_address_def)
      with inv show ?thesis by (simp add: paging_inv_def)
    next
      case (Some e)
      note e = this
      from inv have cur: "next_fit_start (allocator s) \<le> length (frames (physical_memory s))"
        by (simp add: paging_inv_def)
      show ?thesis
      proof (cases "if present_bit e then pte_frame_id e else None")
        case None
        with \<open>map_of (page_tables s) pid = Some pt\<close> Inr po e
        have eq: "fst (Paging_translate_address s pid logical_address) =
            s\<lparr>sim_page_faults := sim_page_faults s + 1,
              page_tables := AList.update pid (set_entry pt page (mark_referenced e)) (page_tables s)\<rparr>"
          by (simp add: Paging_translate_address_def)
        show ?thesis unfolding eq
          by (rule paging_inv_flags [OF inv \<open>map_of (page_tables s) pid = Some pt\<close> e]) simp_all
      next
        case (Some fid)
        show ?thesis
        proof (cases "get_frame (frames (physical_memory s)) fid")
          case None
          with \<open>map_of (page_tables s) pid = Some pt\<close> Inr po e Some
          have "fst (Paging_translate_address s pid logical_address) =
              s\<lparr>sim_page_faults := sim_page_faults s + 1\<rparr>"
            by (simp add: Paging_translate_address_def)
          with inv show ?thesis by (simp add: paging_inv_def)
        next
          case (Some frame)
          with \<open>map_of (page_tables s) pid = Some pt\<close> Inr po e
            \<open>(if present_bit e then pte_frame_id e else None) = Some fid\<close>
          have eq: "fst (Paging_translate_address s pid logical_address) =
              s\<lparr>successful_translations := successful_translations s + 1,
                page_tables := AList.update pid (set_entry pt page (mark_referenced e)) (page_tables s)\<rparr>"
            by (simp add: Paging_translate_address_def)
          show ?thesis unfolding eq
            by (rule paging_inv_flags [OF inv \<open>map_of (page_tables s) pid = Some pt\<close> e]) simp_all
        qed
      qed
    qed
  qed
qed

lemma access_page_inv:
  assumes inv: "paging_inv s"
  shows "paging_inv (fst (Paging_access_page s pid page wr))"
proof (cases "map_of (page_tables s) pid")
  case None
  with inv show ?thesis by (simp add: Paging_access_page_def)
next
  case (Some pt)
  show ?thesis
  proof (cases "get_entry pt page")
    case None
    with Some have "fst (Paging_access_page s pid page wr) =
        s\<lparr>sim_page_faults := sim_page_faults s + 1\<rparr>"
      by (simp add: Paging_access_page_def)
    with inv show ?thesis by (simp add: paging_inv_def)
  next
    case (Some e)
    show ?thesis
    proof (cases "present_bit e")
      case False
      with Some \<open>map_of (page_tables s) pid = Some pt\<close>
      have "fst (Paging_access_page s pid page wr) = s\<lparr>sim_page_faults := sim_page_faults s + 1\<rparr>"
        by (simp add: Paging_access_page_def)
      with inv show ?thesis by (simp add: paging_inv_def)
    next
      case True
      let ?e2 = "if wr then mark_modified (mark_referenced e) else mark_referenced e"
      from True Some \<open>map_of (page_tables s) pid = Some pt\<close>
      have eq: "fst (Paging_access_page s pid page wr) =
          s\<lparr>successful_translations := successful_translations s + 1,
            page_tables := AList.update pid (set_entry pt page ?e2) (page_tables s)\<rparr>"
        by (simp add: Paging_access_page_def Let_def)
      show ?thesis unfolding eq
        by (rule paging_inv_flags [OF inv \<open>map_of (page_tables s) pid = Some pt\<close> Some, of ?e2]) simp_all
    qed
  qed
qed

lemma create_page_unmapped:
  assumes "\<And>q e. get_entry pt q = Some e \<Longrightarrow> \<not> present_bit e \<and> pte_frame_id e = None"
    and "get_entry (create_page pt page) q = Some e"
  shows "\<not> present_bit e \<and> pte_frame_id e = None"
proof (cases "get_entry pt page = None \<and> q = page")
  case True
  with assms(2) have "e = PageTableEntry_init page"
    by (simp add: create_page_def get_entry_def set_entry_def update_conv')
  then show ?thesis by (simp add: PageTableEntry_init_def)
next
  case False
  with assms(2) have "get_entry pt q = Some e"
    by (auto simp: create_page_def get_entry_def set_entry_def update_conv' split: if_splits)
  then show ?thesis by (rule assms(1))
qed

lemma fold_create_page_unmapped:
  assumes "\<And>q e. get_entry pt q = Some e \<Longrightarrow> \<not> present_bit e \<and> pte_frame_id e = None"
    and "get_entry (fold (\<lambda>i pt. create_page pt (int i)) xs pt) q = Some e"
  shows "\<not> present_bit e \<and> pte_frame_id e = None"
  using assms
proof (induction xs arbitrary: pt)
  case Nil
  then show ?case by simp
next
  case (Cons x xs)
  show ?case
  proof (rule Cons.IH [of "create_page pt (int x)"])
    fix q' e' assume "get_entry (create_page pt (int x)) q' = Some e'"
    with Cons.prems(1) show "\<not> present_bit e' \<and> pte_frame_id e' = None"
      by (rule create_page_unmapped)
  next
    from Cons.prems(2)
    show "get_entry (fold (\<lambda>i pt. create_page pt (int i)) xs (create_page pt (int x))) q = Some e"
      by simp
  qed
qed

lemma create_process_inv:
  assumes inv: "paging_inv s"
  shows "paging_inv (fst (Paging_create_process s pid n))"
proof (cases "map_of (page_tables s) pid")
  case (Some pt)
  with inv show ?thesis by (simp add: Paging_create_process_def)
next
  case None
  let ?pt = "fold (\<lambda>i pt. create_page pt (int i)) [0..<nat n]
               (PageTable_init pid (pm_frame_size (physical_memory s)))"
  from None have eq: "fst (Paging_create_process s pid n) =
      s\<lparr>page_tables := AList.update pid ?pt (page_tables s),
        processes := AList.update pid \<lparr>num_pages = n, allocated_pages = 0\<rparr> (processes s)\<rparr>"
    by (simp add: Paging_create_process_def Let_def)
  from inv have ei: "entries_inv (frames (physical_memory s)) (entry_of (page_tables s))"
    and cur: "next_fit_start (allocator s) \<le> length (frames (physical_memory s))"
    by (simp_all add: paging_inv_def)
  have "entries_inv (frames (physical_memory s))
          (\<lambda>p q. if p = pid then get_entry ?pt q else entry_of (page_tables s) p q)"
  proof (rule entries_inv_add_table [OF ei])
    fix q e assume "get_entry ?pt q = Some e"
    then show "\<not> present_bit e \<and> pte_frame_id e = None"
      by (rule fold_create_page_unmapped [rotated]) (simp add: get_entry_def PageTable_init_def)
  qed
  with cur show ?thesis unfolding eq by (simp add: paging_inv_def entry_of_new_table)
qed

lemma Frame_deallocate_id [simp]: "frame_id (fst (Frame_deallocate frame)) = frame_id frame"
  by (simp add: Frame_deallocate_def)

lemma reset_inv:
  assumes inv: "paging_inv s"
  shows "paging_inv (Paging_reset s)"
proof -
  from inv have ei: "entries_inv (frames (physical_memory s)) (entry_of (page_tables s))"
    by (simp add: paging_inv_def)
  have "entries_inv (map (\<lambda>frame. fst (Frame_deallocate frame)) (frames (physical_memory s)))
          (\<lambda>p q. None)"
    by (rule entries_inv_empty) (use entries_invD(1) [OF ei] in simp)
  moreover have "entry_of [] = (\<lambda>p q. None)" by (simp add: fun_eq_iff entry_of_def)
  ultimately show ?thesis
    by (simp add: paging_inv_def Paging_reset_def PhysicalMemory_reset_def)
qed

lemma set_allocation_strategy_inv:
  assumes "paging_inv s"
  shows "paging_inv (Paging_set_allocation_strategy s st)"
  using assms by (simp add: paging_inv_def Paging_set_allocation_strategy_def set_strategy_def)

lemma frames_set_frames [simp]:
  "frames (physical_memory (set_frames s fs)) = fs"
  "page_tables (set_frames s fs) = page_tables s"
  "allocator (set_frames s fs) = allocator s"
  "processes (set_frames s fs) = processes s"
  by (simp_all add: set_frames_def)

lemma deallocate_page_inv:
  assumes inv: "paging_inv s"
  shows "paging_inv (fst (Paging_deallocate_page s pid page))"
proof (cases "map_of (page_tables s) pid")
  case None
  with inv show ?thesis by (simp add: Paging_deallocate_page_def)
next
  case (Some pt)
  note pt = this
  show ?thesis
  proof (cases "get_entry pt page")
    case None
    with pt inv show ?thesis by (simp add: Paging_deallocate_page_def)
  next
    case (Some e)
    note e = this
    show ?thesis
    proof (cases "pte_frame_id e")
      case None
      with pt e inv show ?thesis by (simp add: Paging_deallocate_page_def)
    next
      case (Some fid)
      show ?thesis
      proof (cases "present_bit e")
        case False
        with pt e Some inv show ?thesis by (simp add: Paging_deallocate_page_def)
      next
        case True
        let ?fs = "frames (physical_memory s)"
        from inv have ei: "entries_inv ?fs (entry_of (page_tables s))"
          and cur: "next_fit_start (allocator s) \<le> length ?fs"
          by (simp_all add: paging_inv_def)
        have old: "entry_of (page_tables s) pid page = Some e" using pt e by (rule entry_of_Some)
        from entries_invD(3) [OF ei old Some] have fid: "fid < length ?fs" by simp
        let ?fr = "fst (Frame_deallocate (?fs ! fid))"
        from fid have gf: "get_frame ?fs fid = Some (?fs ! fid)" by (simp add: get_frame_def)
        have fs': "frames (physical_memory (fst (Paging_deallocate_page s pid page))) = ?fs[fid := ?fr]"
          and al': "allocator (fst (Paging_deallocate_page s pid page)) = allocator s"
          and pt': "page_tables (fst (Paging_deallocate_page s pid page)) =
              AList.update pid (set_entry pt page (unmap_frame e)) (page_tables s)"
          using pt e Some True gf by (simp_all add: Paging_deallocate_page_def Let_def)
        have "entries_inv (?fs[fid := ?fr])
            (\<lambda>p q. if p = pid \<and> q = page then Some (unmap_frame e) else entry_of (page_tables s) p q)"
          by (rule entries_inv_unmap [OF ei old Some])
             (use entries_invD(1) [OF ei fid] in \<open>simp_all add: unmap_frame_def\<close>)
        with cur pt show ?thesis
          by (simp add: paging_inv_def fs' al' pt' entry_of_set_entry)
      qed
    qed
  qed
qed

lemma free_mapped_frame_length [simp]: "length (free_mapped_frame pt page fs) = length fs"
  by (simp add: free_mapped_frame_def get_frame_def split: option.splits)

lemma free_mapped_frame_id:
  assumes "i < length fs"
  shows "frame_id (free_mapped_frame pt page fs ! i) = frame_id (fs ! i)"
  using assms
  by (auto simp: free_mapped_frame_def get_frame_def nth_list_update split: option.splits)

lemma free_mapped_frame_other:
  assumes "\<And>e. get_entry pt page = Some e \<Longrightarrow> pte_frame_id e \<noteq> Some i"
  shows "free_mapped_frame pt page fs ! i = fs ! i"
  using assms
  by (auto simp: free_mapped_frame_def get_frame_def nth_list_update split: option.splits)

lemma fold_free_mapped_frame:
  "length (fold (free_mapped_frame pt) pages fs) = length fs \<and>
   (\<forall>i<length fs. frame_id (fold (free_mapped_frame pt) pages fs ! i) = frame_id (fs ! i)) \<and>
   (\<forall>i. (\<forall>page e. get_entry pt page = Some e \<longrightarrow> pte_frame_id e \<noteq> Some i) \<longrightarrow>
        fold (free_mapped_frame pt) pages fs ! i = fs ! i)"
proof (induction pages arbitrary: fs)
  case Nil
  then show ?case by simp
next
  case (Cons page pages)
  from Cons.IH [of "free_mapped_frame pt page fs"]
  show ?case by (simp add: free_mapped_frame_id free_mapped_frame_other)
qed

lemma remove_process_inv:
  assumes inv: "paging_inv s"
  shows "paging_inv (fst (Paging_remove_process s pid))"
proof (cases "map_of (page_tables s) pid")
  case None
  with inv show ?thesis by (simp add: Paging_remove_process_def)
next
  case (Some pt)
  let ?fs = "frames (physical_memory s)"
  let ?fs' = "fold (free_mapped_frame pt) (get_mapped_pages pt) ?fs"
  from inv have ei: "entries_inv ?fs (entry_of (page_tables s))"
    and cur: "next_fit_start (allocator s) \<le> length ?fs"
    by (simp_all add: paging_inv_def)
  note ff = fold_free_mapped_frame [of pt "get_mapped_pages pt" ?fs]
  from Some have fs': "frames (physical_memory (fst (Paging_remove_process s pid))) = ?fs'"
    and al': "allocator (fst (Paging_remove_process s pid)) = allocator s"
    and pt': "page_tables (fst (Paging_remove_process s pid)) = AList.delete pid (page_tables s)"
    by (simp_all add: Paging_remove_process_def)
  have "entries_inv ?fs' (\<lambda>p q. if p = pid then None else entry_of (page_tables s) p q)"
  proof (rule entries_inv_remove [OF ei])
    from ff show "length ?fs' = length ?fs" by simp
  next
    fix i assume "i < length ?fs"
    with ff entries_invD(1) [OF ei this] show "frame_id (?fs' ! i) = i" by simp
  next
    fix i assume "i < length ?fs"
      and other: "\<And>page e. entry_of (page_tables s) pid page = Some e \<Longrightarrow> pte_frame_id e \<noteq> Some i"
    have "\<forall>page e. get_entry pt page = Some e \<longrightarrow> pte_frame_id e \<noteq> Some i"
    proof (intro allI impI)
      fix page e assume "get_entry pt page = Some e"
      with Some have "entry_of (page_tables s) pid page = Some e" by (rule entry_of_Some)
      then show "pte_frame_id e \<noteq> Some i" by (rule other)
    qed
    with ff show "?fs' ! i = ?fs ! i" by blast
  qed
  with cur ff show ?thesis
    by (simp add: paging_inv_def fs' al' pt' entry_of_delete)
qed

lemma get_entry_set_entry:
  "get_entry (set_entry pt page e) q = (if q = page then Some e else get_entry pt q)"
  by (simp add: get_entry_def set_entry_def update_conv')

lemma allocated_frame_simps [simp]:
  "frame_id (allocated_frame frame pid page sz) = frame_id frame"
  "status (allocated_frame frame pid page sz) = ALLOCATED"
  by (simp_all add: allocated_frame_def)

lemma Frame_allocate_allocated:
  "status frame = ALLOCATED \<Longrightarrow> Frame_allocate frame pid page sz = (frame, False)"
  by (simp add: Frame_allocate_def)

text \<open>
  The first half of \<^verbatim>\<open>allocate_page\<close>: the table with the entry created when it
  was missing, and that entry.
\<close>

lemma allocate_page_unfold:
  assumes "map_of (page_tables s) pid = Some table0"
  shows "Paging_allocate_page s pid page size_arg =
     (let page_table = (case get_entry table0 page of None \<Rightarrow> create_page table0 page | Some e \<Rightarrow> table0);
          entry = (case get_entry table0 page of None \<Rightarrow> PageTableEntry_init page | Some e \<Rightarrow> e);
          s1 = s\<lparr>page_tables := AList.update pid page_table (page_tables s)\<rparr>;
          alloc_size = (case size_arg of None \<Rightarrow> pm_frame_size (physical_memory s) | Some sz \<Rightarrow> sz)
      in if present_bit entry \<and> pte_frame_id entry \<noteq> None then (s1, Inr (pte_frame_id entry))
         else case MemoryAllocator_allocate (allocator s) (frames (physical_memory s))
                     pid page alloc_size of
                ((a1, fs1), Inl e) \<Rightarrow> ((set_frames s1 fs1)\<lparr>allocator := a1\<rparr>, Inl e)
              | ((a1, fs1), Inr None) \<Rightarrow> ((set_frames s1 fs1)\<lparr>allocator := a1\<rparr>, Inr None)
              | ((a1, fs1), Inr (Some fid)) \<Rightarrow>
                  ((set_frames s
                      (case get_frame fs1 fid of
                         None \<Rightarrow> fs1
                       | Some frame \<Rightarrow> fs1[fid := fst (Frame_allocate frame pid page alloc_size)]))
                     \<lparr>page_tables :=
                        AList.update pid (set_entry page_table page (map_to_frame entry fid))
                          (page_tables s),
                      allocator := a1,
                      processes :=
                        (case map_of (processes s) pid of
                           None \<Rightarrow> processes s
                         | Some info \<Rightarrow>
                             AList.update pid (info\<lparr>allocated_pages := allocated_pages info + 1\<rparr>)
                               (processes s))\<rparr>,
                   Inr (Some fid)))"
  by (simp only: Paging_allocate_page_def Let_def assms option.case)

lemma allocate_page_inv:
  assumes inv: "paging_inv s"
  shows "paging_inv (fst (Paging_allocate_page s pid page size_arg))"
proof (cases "map_of (page_tables s) pid")
  case None
  with inv show ?thesis by (simp add: Paging_allocate_page_def)
next
  case (Some table0)
  note t0 = this
  let ?fs = "frames (physical_memory s)"
  from inv have ei: "entries_inv ?fs (entry_of (page_tables s))"
    and cur: "next_fit_start (allocator s) \<le> length ?fs"
    by (simp_all add: paging_inv_def)
  define page_table where "page_table =
    (case get_entry table0 page of None \<Rightarrow> create_page table0 page | Some e \<Rightarrow> table0)"
  define entry where "entry =
    (case get_entry table0 page of None \<Rightarrow> PageTableEntry_init page | Some e \<Rightarrow> e)"
  define s1 where "s1 = s\<lparr>page_tables := AList.update pid page_table (page_tables s)\<rparr>"
  define alloc_size where "alloc_size =
    (case size_arg of None \<Rightarrow> pm_frame_size (physical_memory s) | Some sz \<Rightarrow> sz)"
  note unfold = allocate_page_unfold [OF t0, of page size_arg, unfolded Let_def,
      folded page_table_def entry_def alloc_size_def, folded s1_def]
  have ent1: "entry_of (page_tables s1) =
      (\<lambda>p q. if p = pid \<and> q = page then Some entry else entry_of (page_tables s) p q)"
    and bits: "present_bit entry \<longleftrightarrow> pte_frame_id entry \<noteq> None"
    and origin: "\<forall>f. pte_frame_id entry = Some f \<longrightarrow>
      (\<exists>e. entry_of (page_tables s) pid page = Some e \<and> pte_frame_id e = Some f)"
  proof -
    show "entry_of (page_tables s1) =
      (\<lambda>p q. if p = pid \<and> q = page then Some entry else entry_of (page_tables s) p q)"
    proof (cases "get_entry table0 page")
      case None
      then have "page_table = create_page table0 page" "entry = PageTableEntry_init page"
        by (simp_all add: page_table_def entry_def)
      with t0 None show ?thesis
        by (simp add: s1_def entry_of_create_page cong: if_cong)
    next
      case (Some e)
      with t0 have "entry_of (page_tables s) pid page = Some e" by (simp add: entry_of_def)
      moreover from Some have "page_table = table0" "entry = e"
        by (simp_all add: page_table_def entry_def)
      ultimately show ?thesis using t0
        by (auto simp: s1_def entry_of_same_table fun_eq_iff)
    qed
    show "present_bit entry \<longleftrightarrow> pte_frame_id entry \<noteq> None"
    proof (cases "get_entry table0 page")
      case None
      then show ?thesis by (simp add: entry_def PageTableEntry_init_def)
    next
      case (Some e)
      with t0 have "entry_of (page_tables s) pid page = Some e" by (simp add: entry_of_def)
      from entries_invD(2) [OF ei this] Some show ?thesis by (simp add: entry_def)
    qed
    show "\<forall>f. pte_frame_id entry = Some f \<longrightarrow>
      (\<exists>e. entry_of (page_tables s) pid page = Some e \<and> pte_frame_id e = Some f)"
    proof (cases "get_entry table0 page")
      case None
      then show ?thesis by (simp add: entry_def PageTableEntry_init_def)
    next
      case (Some e)
      with t0 have "entry_of (page_tables s) pid page = Some e" by (simp add: entry_of_def)
      with Some show ?thesis by (simp add: entry_def)
    qed
  qed
  have inv1: "entries_inv ?fs (entry_of (page_tables s1))"
    unfolding ent1 by (rule entries_inv_update_entry [OF ei bits origin])
  have s1_same: "frames (physical_memory s1) = ?fs" "allocator s1 = allocator s"
    by (simp_all add: s1_def)
  show ?thesis
  proof (cases "present_bit entry \<and> pte_frame_id entry \<noteq> None")
    case True
    with unfold have "fst (Paging_allocate_page s pid page size_arg) = s1" by simp
    with inv1 cur s1_same show ?thesis by (simp add: paging_inv_def)
  next
    case False
    with bits have unmapped: "\<not> present_bit entry" "pte_frame_id entry = None" by auto
    obtain a1 fs1 r where al: "MemoryAllocator_allocate (allocator s) ?fs pid page alloc_size =
        ((a1, fs1), r)"
      by (cases "MemoryAllocator_allocate (allocator s) ?fs pid page alloc_size") auto
    note ac = allocate_cases [OF al]
    from ac cur have cur1: "next_fit_start a1 \<le> length ?fs" by simp
    show ?thesis
    proof (cases "\<exists>fid. r = Inr (Some fid)")
      case False
      with ac have fs1: "fs1 = ?fs" by (auto split: sum.splits option.splits)
      from False unfold unmapped al
      have "fst (Paging_allocate_page s pid page size_arg) = (set_frames s1 fs1)\<lparr>allocator := a1\<rparr>"
        by (auto split: sum.splits option.splits)
      with inv1 cur1 fs1 show ?thesis by (simp add: paging_inv_def)
    next
      case True
      then obtain fid where r: "r = Inr (Some fid)" by blast
      with ac obtain i where i: "i < length ?fs" "status (?fs ! i) = FREE"
        "fid = frame_id (?fs ! i)" "fs1 = ?fs[i := allocated_frame (?fs ! i) pid page alloc_size]"
        by auto
      from entries_invD(1) [OF ei i(1)] i(3) have fid: "fid = i" by simp
      let ?fr = "allocated_frame (?fs ! i) pid page alloc_size"
      from i fid have gf: "get_frame fs1 fid = Some ?fr" by (simp add: get_frame_def)
      have fs2: "(case get_frame fs1 i of None \<Rightarrow> fs1
          | Some frame \<Rightarrow> fs1[i := fst (Frame_allocate frame pid page alloc_size)]) = fs1"
        using gf i fid by (simp add: Frame_allocate_allocated)
      let ?e' = "map_to_frame entry i"
      from unfold unmapped al r fid
      have fs': "frames (physical_memory (fst (Paging_allocate_page s pid page size_arg))) = fs1"
        and al': "allocator (fst (Paging_allocate_page s pid page size_arg)) = a1"
        and pt': "page_tables (fst (Paging_allocate_page s pid page size_arg)) =
            AList.update pid (set_entry page_table page ?e') (page_tables s)"
        using fs2 by simp_all
      have ent': "entry_of (AList.update pid (set_entry page_table page ?e') (page_tables s)) =
          (\<lambda>p q. if p = pid \<and> q = page then Some ?e' else entry_of (page_tables s1) p q)"
        by (auto simp: fun_eq_iff entry_of_new_table get_entry_set_entry s1_def)
      have "entries_inv (?fs[i := ?fr])
          (\<lambda>p q. if p = pid \<and> q = page then Some ?e' else entry_of (page_tables s1) p q)"
        by (rule entries_inv_map [OF inv1 i(1,2)])
           (use entries_invD(1) [OF ei i(1)] in \<open>simp_all add: map_to_frame_def\<close>)
      with cur1 i(4) show ?thesis
        by (simp add: paging_inv_def fs' al' pt' ent')
    qed
  qed
qed

lemma fresh_inv: "paging_inv (PagingSimulator_init n fsize st)"
proof -
  have "entries_inv (map (\<lambda>i. Frame_init i fsize) [0..<nat n]) (\<lambda>p q. None)"
    by (rule entries_inv_empty) (simp add: Frame_init_def)
  moreover have "entry_of [] = (\<lambda>p q. None)" by (simp add: fun_eq_iff entry_of_def)
  ultimately show ?thesis
    by (simp add: paging_inv_def PagingSimulator_init_def PhysicalMemory_init_def)
qed

lemma reachable_inv: "reachable s \<Longrightarrow> paging_inv s"
proof (induction rule: reachable.induct)
  case (fresh n fsize st)
  show ?case by (rule fresh_inv)
next
  case (create_process s pid n)
  then show ?case by (simp add: create_process_inv)
next
  case (allocate_page s pid page size_arg)
  then show ?case by (simp add: allocate_page_inv)
next
  case (deallocate_page s pid page)
  then show ?case by (simp add: deallocate_page_inv)
next
  case (remove_process s pid)
  then show ?case by (simp add: remove_process_inv)
next
  case (translate_address s pid logical_address)
  then show ?case by (simp add: translate_address_inv)
next
  case (access_page s pid page wr)
  then show ?case by (simp add: access_page_inv)
next
  case (reset s)
  then show ?case by (simp add: reset_inv)
next
  case (set_allocation_strategy s st)
  then show ?case by (simp add: set_allocation_strategy_inv)
qed


section \<open>Properties of the paging simulator\<close>

text \<open>
  Claim C5. In every state that the simulator reaches from a fresh instance by
  \<^verbatim>\<open>create_process\<close>, \<^verbatim>\<open>allocate_page\<close>, \<^verbatim>\<open>deallocate_page\<close>,
  \<^verbatim>\<open>remove_process\<close>, \<^verbatim>\<open>translate_address\<close>, \<^verbatim>\<open>access_page\<close>, \<^verbatim>\<open>reset\<close>
  (and \<^verbatim>\<open>set_allocation_strategy\<close>), two page-table entries with the present bit
  set and the same frame id are the same entry: same process, same page.
\<close>

theorem exclusive_frame_ownership:
  assumes "reachable s"
    and "map_of (page_tables s) pid = Some pt" and "get_entry pt page = Some e"
    and "present_bit e"
    and "map_of (page_tables s) pid' = Some pt'" and "get_entry pt' page' = Some e'"
    and "present_bit e'"
    and "pte_frame_id e = pte_frame_id e'"
  shows "pid = pid' \<and> page = page'"
proof -
  from assms(1) have "paging_inv s" by (rule reachable_inv)
  then have ei: "entries_inv (frames (physical_memory s)) (entry_of (page_tables s))"
    by (simp add: paging_inv_def)
  have a: "entry_of (page_tables s) pid page = Some e" using assms(2,3) by (rule entry_of_Some)
  have b: "entry_of (page_tables s) pid' page' = Some e'" using assms(5,6) by (rule entry_of_Some)
  from entries_invD(2) [OF ei a] assms(4) obtain f where f: "pte_frame_id e = Some f" by auto
  with assms(8) have f': "pte_frame_id e' = Some f" by simp
  from entries_invD(4) [OF ei a b f f'] show ?thesis .
qed

lemma two_process_sim_reachable: "reachable two_process_sim"
  unfolding two_process_sim_def by (intro reachable.intros)

lemma two_process_sim_tables:
  "page_tables two_process_sim =
     [(1, \<lparr>pt_process_id = 1, page_size = 4,
            entries = [(0, \<lparr>pte_page_id = 0, pte_frame_id = Some 0, pte_status = PRESENT,
                             valid = True, present_bit = True, modified_bit = False,
                             referenced_bit = False, protection_bits = 0\<rparr>)]\<rparr>),
      (2, \<lparr>pt_process_id = 2, page_size = 4,
            entries = [(0, \<lparr>pte_page_id = 0, pte_frame_id = Some 1, pte_status = PRESENT,
                             valid = True, present_bit = True, modified_bit = False,
                             referenced_bit = False, protection_bits = 0\<rparr>)]\<rparr>)]"
  by code_simp

text \<open>
  Two processes with page 0 mapped each: both entries are present, and the theorem
  gives that their frame ids differ.
\<close>

theorem exclusive_frame_ownership_witness:
  "reachable two_process_sim \<and>
   (\<exists>pt e pt' e'.
      map_of (page_tables two_process_sim) 1 = Some pt \<and> get_entry pt 0 = Some e \<and>
      present_bit e \<and>
      map_of (page_tables two_process_sim) 2 = Some pt' \<and> get_entry pt' 0 = Some e' \<and>
      present_bit e' \<and> pte_frame_id e \<noteq> pte_frame_id e')"
proof -
  let ?e1 = "\<lparr>pte_page_id = 0, pte_frame_id = Some 0, pte_status = PRESENT,
              valid = True, present_bit = True, modified_bit = False,
              referenced_bit = False, protection_bits = 0\<rparr>"
  let ?e2 = "\<lparr>pte_page_id = 0, pte_frame_id = Some 1, pte_status = PRESENT,
              valid = True, present_bit = True, modified_bit = False,
              referenced_bit = False, protection_bits = 0\<rparr>"
  let ?pt1 = "\<lparr>pt_process_id = 1, page_size = 4, entries = [(0, ?e1)]\<rparr>"
  let ?pt2 = "\<lparr>pt_process_id = 2, page_size = 4, entries = [(0, ?e2)]\<rparr>"
  have t1: "map_of (page_tables two_process_sim) 1 = Some ?pt1"
    and t2: "map_of (page_tables two_process_sim) 2 = Some ?pt2"
    by (simp_all add: two_process_sim_tables)
  have g1: "get_entry ?pt1 0 = Some ?e1" and g2: "get_entry ?pt2 0 = Some ?e2"
    by (simp_all add: get_entry_def)
  have p1: "present_bit ?e1" and p2: "present_bit ?e2" by simp_all
  have "pte_frame_id ?e1 \<noteq> pte_frame_id ?e2"
  proof
    assume "pte_frame_id ?e1 = pte_frame_id ?e2"
    from exclusive_frame_ownership [OF two_process_sim_reachable t1 g1 p1 t2 g2 p2 this]
    show False by simp
  qed
  with two_process_sim_reachable t1 t2 g1 g2 p1 p2 show ?thesis by blast
qed

text \<open>
  Claim C6. In a reachable state, for a page \<open>page\<close> of process \<open>pid\<close> whose entry is
  present with frame \<open>f\<close>, and an offset \<open>0 \<le> k < page_size\<close>, translating
  \<open>page * page_size + k\<close> returns the physical address \<open>f * frame_size + k\<close>, the
  offset \<open>k\<close> and no fault.
\<close>

theorem round_trip_translation:
  assumes "reachable s"
    and "map_of (page_tables s) pid = Some pt" and "get_entry pt page = Some e"
    and "present_bit e" and "pte_frame_id e = Some f"
    and "0 \<le> k" and "k < page_size pt"
  shows "snd (Paging_translate_address s pid (page * page_size pt + k)) =
           Inr (Some (Some (int f * pm_frame_size (physical_memory s) + k), k, False))"
proof -
  from assms(1) have "paging_inv s" by (rule reachable_inv)
  then have ei: "entries_inv (frames (physical_memory s)) (entry_of (page_tables s))"
    by (simp add: paging_inv_def)
  have a: "entry_of (page_tables s) pid page = Some e" using assms(2,3) by (rule entry_of_Some)
  from entries_invD(3) [OF ei a assms(5)]
  have gf: "get_frame (frames (physical_memory s)) f = Some (frames (physical_memory s) ! f)"
    by (simp add: get_frame_def)
  from assms(6,7) have "(page * page_size pt + k) div page_size pt = page"
    and "(page * page_size pt + k) mod page_size pt = k" by simp_all
  with assms(6,7) have tr: "PageTable_translate_address pt (page * page_size pt + k) = Inr (page, k)"
    by (simp add: PageTable_translate_address_def)
  from assms(2-5) tr gf show ?thesis
    by (simp add: Paging_translate_address_def)
qed

lemma full_sim_reachable: "reachable full_sim"
  unfolding full_sim_def by (intro reachable.intros)

lemma full_sim_eq:
  "full_sim =
     \<lparr>physical_memory =
        \<lparr>pm_num_frames = 1, pm_frame_size = 4,
         frames = [\<lparr>frame_id = 0, frame_sz = 4, status = ALLOCATED, fr_process_id = Some 1,
                    fr_page_id = Some 0, allocated_size = 4\<rparr>],
         next_frame_id = 1\<rparr>,
      page_tables =
        [(1, \<lparr>pt_process_id = 1, page_size = 4,
               entries = [(0, \<lparr>pte_page_id = 0, pte_frame_id = Some 0, pte_status = PRESENT,
                                valid = True, present_bit = True, modified_bit = False,
                                referenced_bit = False, protection_bits = 0\<rparr>)]\<rparr>)],
      allocator = \<lparr>strategy = FIRST_FIT, next_fit_start = 0\<rparr>,
      sim_page_faults = 0, successful_translations = 0,
      processes = [(1, \<lparr>num_pages = 0, allocated_pages = 1\<rparr>)]\<rparr>"
  by code_simp

text \<open>Page 0 of process 1 in frame 0, page size 4, offset 3.\<close>

theorem round_trip_translation_witness:
  "reachable full_sim \<and>
   snd (Paging_translate_address full_sim 1 (0 * 4 + 3)) = Inr (Some (Some 3, 3, False))"
proof -
  let ?e = "\<lparr>pte_page_id = 0, pte_frame_id = Some 0, pte_status = PRESENT,
             valid = True, present_bit = True, modified_bit = False,
             referenced_bit = False, protection_bits = 0\<rparr>"
  let ?pt = "\<lparr>pt_process_id = 1, page_size = 4, entries = [(0, ?e)]\<rparr>"
  have t: "map_of (page_tables full_sim) 1 = Some ?pt" by (simp add: full_sim_eq)
  have g: "get_entry ?pt 0 = Some ?e" by (simp add: get_entry_def)
  have p: "present_bit ?e" "pte_frame_id ?e = Some 0" by simp_all
  have k: "(0::int) \<le> 3" "3 < page_size ?pt" by simp_all
  have fsz: "pm_frame_size (physical_memory full_sim) = 4" by (simp add: full_sim_eq)
  from round_trip_translation [OF full_sim_reachable t g p k] fsz full_sim_reachable
  show ?thesis by simp
qed

lemma update_same_value:
  "map_of al k = Some v \<Longrightarrow> AList.update k v al = al"
  by (induction al) (auto split: if_splits)

lemma update_new_key:
  "map_of al k = None \<Longrightarrow> AList.update k v al = al @ [(k, v)]"
  by (induction al) (auto split: if_splits)

text \<open>
  Claim C10. In a reachable state, for an existing process and a page with no entry,
  when no free frame fits the requested size, \<^verbatim>\<open>allocate_page\<close> returns
  \<^verbatim>\<open>None\<close> and the only change of the simulator is the new entry of the page,
  which is not present; the number of entries of the process grows by one and the
  frames are as before.
\<close>

theorem allocate_page_failure_creates_entry:
  assumes "reachable s"
    and "map_of (page_tables s) pid = Some pt" and "get_entry pt page = None"
    and "\<forall>frame\<in>set (frames (physical_memory s)).
           \<not> (status frame = FREE \<and>
              (case size_arg of None \<Rightarrow> pm_frame_size (physical_memory s) | Some sz \<Rightarrow> sz)
                \<le> frame_sz frame)"
  shows "Paging_allocate_page s pid page size_arg =
           (s\<lparr>page_tables := AList.update pid (create_page pt page) (page_tables s)\<rparr>, Inr None) \<and>
         get_entry (create_page pt page) page = Some (PageTableEntry_init page) \<and>
         present_bit (PageTableEntry_init page) = False \<and>
         pte_status (PageTableEntry_init page) = NOT_PRESENT \<and>
         total_pages (create_page pt page) = total_pages pt + 1 \<and>
         frames (physical_memory (fst (Paging_allocate_page s pid page size_arg))) =
           frames (physical_memory s)"
proof -
  from assms(1) have "paging_inv s" by (rule reachable_inv)
  then have cur: "next_fit_start (allocator s) \<le> length (frames (physical_memory s))"
    by (simp add: paging_inv_def)
  let ?sz = "case size_arg of None \<Rightarrow> pm_frame_size (physical_memory s) | Some sz \<Rightarrow> sz"
  from allocate_no_fit [OF assms(4) cur]
  have al: "MemoryAllocator_allocate (allocator s) (frames (physical_memory s)) pid page ?sz =
      ((allocator s, frames (physical_memory s)), Inr None)" .
  have res: "Paging_allocate_page s pid page size_arg =
      (s\<lparr>page_tables := AList.update pid (create_page pt page) (page_tables s)\<rparr>, Inr None)"
    using assms(3) al
    by (simp add: allocate_page_unfold [OF assms(2)] PageTableEntry_init_def set_frames_def)
  have ent: "get_entry (create_page pt page) page = Some (PageTableEntry_init page)"
    using assms(3) by (simp add: create_page_def get_entry_set_entry)
  from assms(3) have "map_of (entries pt) page = None" by (simp add: get_entry_def)
  then have "entries (create_page pt page) = entries pt @ [(page, PageTableEntry_init page)]"
    using assms(3) by (simp add: create_page_def set_entry_def update_new_key)
  then have tot: "total_pages (create_page pt page) = total_pages pt + 1"
    by (simp add: total_pages_def)
  from res ent tot show ?thesis by (simp add: PageTableEntry_init_def)
qed

text \<open>
  The only frame is taken by page 0 of process 1; allocating page 1 fails and leaves
  an entry for page 1.
\<close>

theorem allocate_page_failure_creates_entry_witness:
  "reachable full_sim \<and>
   snd (Paging_allocate_page full_sim 1 1 None) = Inr None \<and>
   map_of (page_tables (fst (Paging_allocate_page full_sim 1 1 None))) 1 =
     Some \<lparr>pt_process_id = 1, page_size = 4,
           entries = [(0, \<lparr>pte_page_id = 0, pte_frame_id = Some 0, pte_status = PRESENT,
                            valid = True, present_bit = True, modified_bit = False,
                            referenced_bit = False, protection_bits = 0\<rparr>),
                      (1, PageTableEntry_init 1)]\<rparr> \<and>
   frames (physical_memory (fst (Paging_allocate_page full_sim 1 1 None))) =
     frames (physical_memory full_sim)"
proof -
  let ?e = "\<lparr>pte_page_id = 0, pte_frame_id = Some 0, pte_status = PRESENT,
             valid = True, present_bit = True, modified_bit = False,
             referenced_bit = False, protection_bits = 0\<rparr>"
  let ?pt = "\<lparr>pt_process_id = 1, page_size = 4, entries = [(0, ?e)]\<rparr>"
  have t: "map_of (page_tables full_sim) 1 = Some ?pt" by (simp add: full_sim_eq)
  have g: "get_entry ?pt 1 = None" by (simp add: get_entry_def)
  have nofit: "\<forall>frame\<in>set (frames (physical_memory full_sim)).
           \<not> (status frame = FREE \<and>
              (case None of None \<Rightarrow> pm_frame_size (physical_memory full_sim) | Some sz \<Rightarrow> sz)
                \<le> frame_sz frame)"
    by (simp add: full_sim_eq)
  have cp: "create_page ?pt 1 = ?pt\<lparr>entries := [(0, ?e), (1, PageTableEntry_init 1)]\<rparr>"
    by (simp add: create_page_def get_entry_def set_entry_def)
  from allocate_page_failure_creates_entry [OF full_sim_reachable t g nofit] full_sim_reachable
  show ?thesis by (simp add: cp update_conv')
qed


end
